theory Spec2Isabelle
  imports Complex_Main "HOL-Library.Sublist"
begin

section \<open>Numbers and dictionaries\<close>

text \<open>
  The Python source computes on \<open>int\<close>, \<open>bool\<close> and \<open>float\<close> values. All three are
  embedded in the exact rationals: an \<open>int\<close> or \<open>bool\<close> is its value, a finite \<open>float\<close>
  is the rational it denotes, and \<open>+\<close>, \<open>*\<close>, \<open>/\<close> are exact (the binary rounding of
  IEEE doubles, infinities and NaN are outside the model).
\<close>

text \<open>\<open>d.get(key, default)\<close> on a field that may be absent from the dictionary.\<close>

definition dict_get :: "'a option \<Rightarrow> 'a \<Rightarrow> 'a" where
  "dict_get field dflt = (case field of None \<Rightarrow> dflt | Some v \<Rightarrow> v)"

text \<open>
  Python's two-argument \<open>min\<close> and \<open>max\<close> keep the first argument unless the second is
  strictly smaller (larger).
\<close>

definition py_min :: "rat \<Rightarrow> rat \<Rightarrow> rat" where
  "py_min a b = (if b < a then b else a)"

definition py_max :: "rat \<Rightarrow> rat \<Rightarrow> rat" where
  "py_max a b = (if b > a then b else a)"

text \<open>
  \<open>round(x, 2)\<close>: the nearest multiple of 1/100, an exact tie going to the even
  neighbour.
\<close>

definition round_half_even :: "rat \<Rightarrow> int" where
  "round_half_even y =
     (let f = \<lfloor>y\<rfloor>; d = y - of_int f
      in if d < 1/2 then f
         else if d > 1/2 then f + 1
         else if even f then f else f + 1)"

definition py_round2 :: "rat \<Rightarrow> rat" where
  "py_round2 x = of_int (round_half_even (x * 100)) / 100"

section \<open>Characters and strings\<close>

text \<open>
  A string is a list of characters with code points 0 to 255. The character classes
  below are those of Python's \<open>str\<close> methods and of the \<open>re\<close> module (in its default
  Unicode mode) on that range.
\<close>

definition code :: "char \<Rightarrow> nat" where
  "code c = of_char c"

definition lower_char :: "char \<Rightarrow> char" where
  "lower_char c =
     (let n = code c
      in if (65 \<le> n \<and> n \<le> 90) \<or> (192 \<le> n \<and> n \<le> 222 \<and> n \<noteq> 215)
         then char_of (n + 32) else c)"

definition upper_char :: "char \<Rightarrow> char" where
  "upper_char c =
     (let n = code c
      in if (97 \<le> n \<and> n \<le> 122) \<or> (224 \<le> n \<and> n \<le> 254 \<and> n \<noteq> 247)
         then char_of (n - 32) else c)"

text \<open>\<open>s.lower()\<close>\<close>

definition py_lower :: "string \<Rightarrow> string" where
  "py_lower s = map lower_char s"

text \<open>\<open>\s\<close> and \<open>str.isspace\<close>\<close>

definition is_space :: "char \<Rightarrow> bool" where
  "is_space c = (let n = code c in (9 \<le> n \<and> n \<le> 13) \<or> (28 \<le> n \<and> n \<le> 32) \<or> n = 133 \<or> n = 160)"

text \<open>\<open>\d\<close>\<close>

definition is_digit :: "char \<Rightarrow> bool" where
  "is_digit c = (let n = code c in 48 \<le> n \<and> n \<le> 57)"

text \<open>\<open>\w\<close>: alphanumeric or underscore\<close>

definition is_word :: "char \<Rightarrow> bool" where
  "is_word c =
     (let n = code c
      in (48 \<le> n \<and> n \<le> 57) \<or> (65 \<le> n \<and> n \<le> 90) \<or> n = 95 \<or> (97 \<le> n \<and> n \<le> 122)
         \<or> n = 170 \<or> n = 178 \<or> n = 179 \<or> n = 181 \<or> n = 185 \<or> n = 186
         \<or> (188 \<le> n \<and> n \<le> 190) \<or> (192 \<le> n \<and> n \<le> 214) \<or> (216 \<le> n \<and> n \<le> 246)
         \<or> 248 \<le> n)"

text \<open>\<open>needle in haystack\<close> on strings: \<open>needle\<close> occurs as a contiguous substring.\<close>

primrec substring_in :: "string \<Rightarrow> string \<Rightarrow> bool" where
  "substring_in needle [] = (needle = [])"
| "substring_in needle (c # cs) = (prefix needle (c # cs) \<or> substring_in needle cs)"

text \<open>\<open>s.strip()\<close>\<close>

definition strip :: "string \<Rightarrow> string" where
  "strip s = rev (dropWhile is_space (rev (dropWhile is_space s)))"

section \<open>Regular expressions\<close>

text \<open>
  The fragment of Python's \<open>re\<close> syntax that the source uses, with the backtracking
  matcher's order of preference: the left branch of an alternative first, an optional
  item present first, a repetition as long as possible first.
\<close>

datatype cset = Range char char | Digits | Spaces

datatype atom = Lit char | Class bool "cset list"

datatype regex =
    RAtom atom
  | RWordB
  | REps
  | RSeq regex regex
  | RAlt regex regex
  | ROpt regex
  | RRep atom nat "nat option"
  | RGroup nat regex

definition in_range :: "char \<Rightarrow> char \<Rightarrow> char \<Rightarrow> bool" where
  "in_range lo hi c = (code lo \<le> code c \<and> code c \<le> code hi)"

text \<open>Membership in one item of a bracket class; \<open>ic\<close> is the flag \<open>re.IGNORECASE\<close>.\<close>

fun in_cset :: "bool \<Rightarrow> cset \<Rightarrow> char \<Rightarrow> bool" where
  "in_cset ic (Range lo hi) c =
     (in_range lo hi c \<or> (ic \<and> (in_range lo hi (lower_char c) \<or> in_range lo hi (upper_char c))))"
| "in_cset ic Digits c = is_digit c"
| "in_cset ic Spaces c = is_space c"

fun atom_matches :: "bool \<Rightarrow> atom \<Rightarrow> char \<Rightarrow> bool" where
  "atom_matches ic (Lit d) c = (if ic then lower_char c = lower_char d else c = d)"
| "atom_matches ic (Class negated items) c = (negated \<noteq> list_ex (\<lambda>i. in_cset ic i c) items)"

text \<open>
  A position in the text is the pair of the text before it, reversed, and the text from
  it on. \<open>\b\<close> holds where exactly one of the two neighbouring characters is a word
  character (a missing neighbour is not one).
\<close>

type_synonym position = "string \<times> string"

type_synonym captures = "(nat \<times> string) list"

definition word_boundary :: "position \<Rightarrow> bool" where
  "word_boundary p =
     ((case fst p of [] \<Rightarrow> False | c # _ \<Rightarrow> is_word c) \<noteq>
      (case snd p of [] \<Rightarrow> False | c # _ \<Rightarrow> is_word c))"

text \<open>The text between two positions of the same string, the second not before the first.\<close>

definition between :: "position \<Rightarrow> position \<Rightarrow> string" where
  "between p q = take (length (snd p) - length (snd q)) (snd p)"

text \<open>
  Greedy repetition of one atom: \<open>n\<close> counts the characters taken so far; the longest
  run comes first in the result.
\<close>

fun rep_atom :: "bool \<Rightarrow> atom \<Rightarrow> nat \<Rightarrow> nat option \<Rightarrow> nat \<Rightarrow> position \<Rightarrow> position list" where
  "rep_atom ic a lo hi n (b, []) = (if lo \<le> n then [(b, [])] else [])"
| "rep_atom ic a lo hi n (b, c # cs) =
     (if atom_matches ic a c \<and> (case hi of None \<Rightarrow> True | Some h \<Rightarrow> n < h)
      then rep_atom ic a lo hi (Suc n) (c # b, cs) else [])
     @ (if lo \<le> n then [(b, c # cs)] else [])"

text \<open>
  All ways the expression matches from a position, most preferred first, each with the
  position reached and the groups captured.
\<close>

primrec matches :: "bool \<Rightarrow> regex \<Rightarrow> position \<times> captures \<Rightarrow> (position \<times> captures) list" where
  "matches ic (RAtom a) x =
     (case snd (fst x) of
        [] \<Rightarrow> []
      | c # cs \<Rightarrow> if atom_matches ic a c then [((c # fst (fst x), cs), snd x)] else [])"
| "matches ic RWordB x = (if word_boundary (fst x) then [x] else [])"
| "matches ic REps x = [x]"
| "matches ic (RSeq r1 r2) x = concat (map (matches ic r2) (matches ic r1 x))"
| "matches ic (RAlt r1 r2) x = matches ic r1 x @ matches ic r2 x"
| "matches ic (ROpt r) x = matches ic r x @ [x]"
| "matches ic (RRep a lo hi) x = map (\<lambda>p. (p, snd x)) (rep_atom ic a lo hi 0 (fst x))"
| "matches ic (RGroup g r) x =
     map (\<lambda>y. (fst y, (g, between (fst x) (fst y)) # snd y)) (matches ic r x)"

text \<open>A match object: \<open>group(0)\<close> and the numbered groups.\<close>

record match =
  group0 :: string
  groups :: captures

definition group :: "match \<Rightarrow> nat \<Rightarrow> string option" where
  "group mt g = map_of (groups mt) g"

text \<open>\<open>re.search\<close>: the preferred match at the first position that has one.\<close>

primrec search_from :: "bool \<Rightarrow> regex \<Rightarrow> string \<Rightarrow> string \<Rightarrow> match option" where
  "search_from ic r b [] =
     (case matches ic r ((b, []), []) of
        [] \<Rightarrow> None
      | y # _ \<Rightarrow> Some \<lparr>group0 = between (b, []) (fst y), groups = snd y\<rparr>)"
| "search_from ic r b (c # cs) =
     (case matches ic r ((b, c # cs), []) of
        [] \<Rightarrow> search_from ic r (c # b) cs
      | y # _ \<Rightarrow> Some \<lparr>group0 = between (b, c # cs) (fst y), groups = snd y\<rparr>)"

definition search :: "bool \<Rightarrow> regex \<Rightarrow> string \<Rightarrow> match option" where
  "search ic r text = search_from ic r [] text"

text \<open>Building expressions: a sequence, an alternative, a literal string.\<close>

definition seq :: "regex list \<Rightarrow> regex" where
  "seq rs = foldr RSeq rs REps"

fun alt :: "regex list \<Rightarrow> regex" where
  "alt [] = RAtom (Class False [])"
| "alt [r] = r"
| "alt (r # rs) = RAlt r (alt rs)"

definition literal :: "string \<Rightarrow> regex" where
  "literal s = seq (map (\<lambda>c. RAtom (Lit c)) s)"

text \<open>\<^verbatim>\<open>(https?:\/\/[^\s]+|\b[A-Z0-9]{5,12}\b)\<close>\<close>

definition GENERIC_VERIFY_REGEX :: regex where
  "GENERIC_VERIFY_REGEX =
     RGroup 1 (alt
       [seq [literal ''http'', ROpt (RAtom (Lit CHR ''s'')), literal ''://'',
             RRep (Class True [Spaces]) 1 None],
        seq [RWordB,
             RRep (Class False [Range CHR ''A'' CHR ''Z'', Range CHR ''0'' CHR ''9'']) 5 (Some 12),
             RWordB]])"

text \<open>\<^verbatim>\<open>(\d+\.?\d*)\s*(?:total\s*)?(hours|hrs|h|weeks|week|months|month)\<close>\<close>

definition TIME_REGEX :: regex where
  "TIME_REGEX =
     seq [RGroup 1 (seq [RRep (Class False [Digits]) 1 None,
                         ROpt (RAtom (Lit CHR ''.'')),
                         RRep (Class False [Digits]) 0 None]),
          RRep (Class False [Spaces]) 0 None,
          ROpt (seq [literal ''total'', RRep (Class False [Spaces]) 0 None]),
          RGroup 2 (alt [literal ''hours'', literal ''hrs'', literal ''h'', literal ''weeks'',
                         literal ''week'', literal ''months'', literal ''month''])]"

section \<open>The meaning of an expression\<close>

text \<open>
  What an expression matches, stated without the matcher: \<open>accepts ic r b w t\<close> holds when
  the word \<open>w\<close> is matched by \<open>r\<close> where \<open>b\<close> is the text before \<open>w\<close>, reversed, and \<open>t\<close>
  the text after it. The context matters to \<open>\b\<close> only.
\<close>

primrec accepts :: "bool \<Rightarrow> regex \<Rightarrow> string \<Rightarrow> string \<Rightarrow> string \<Rightarrow> bool" where
  "accepts ic (RAtom a) b w t = (case w of [c] \<Rightarrow> atom_matches ic a c | _ \<Rightarrow> False)"
| "accepts ic RWordB b w t = (w = [] \<and> word_boundary (b, t))"
| "accepts ic REps b w t = (w = [])"
| "accepts ic (RSeq r1 r2) b w t =
     list_ex (\<lambda>i. accepts ic r1 b (take i w) (drop i w @ t) \<and> accepts ic r2 (rev (take i w) @ b) (drop i w) t)
       [0..<Suc (length w)]"
| "accepts ic (RAlt r1 r2) b w t = (accepts ic r1 b w t \<or> accepts ic r2 b w t)"
| "accepts ic (ROpt r) b w t = (accepts ic r b w t \<or> w = [])"
| "accepts ic (RRep a lo hi) b w t =
     (list_all (atom_matches ic a) w \<and> lo \<le> length w \<and> (case hi of None \<Rightarrow> True | Some h \<Rightarrow> length w \<le> h))"
| "accepts ic (RGroup g r) b w t = accepts ic r b w t"

text \<open>No capture group occurs in the expression.\<close>

primrec group_free :: "regex \<Rightarrow> bool" where
  "group_free (RAtom a) = True"
| "group_free RWordB = True"
| "group_free REps = True"
| "group_free (RSeq r1 r2) = (group_free r1 \<and> group_free r2)"
| "group_free (RAlt r1 r2) = (group_free r1 \<and> group_free r2)"
| "group_free (ROpt r) = group_free r"
| "group_free (RRep a lo hi) = True"
| "group_free (RGroup g r) = False"

section \<open>Reference tables\<close>

text \<open>Dictionaries whose iteration order matters are association lists in definition order.\<close>

definition ISSUER_DB :: "(string \<times> int) list" where
  "ISSUER_DB =
    [(''udemy'',20),(''coursera'',30),(''edx'',40),(''aws'',80),(''google'',75),(''microsoft'',75),(''linkedin'',25),
     (''kaggle'',50),(''pluralsight'',35),(''datacamp'',30),(''simplilearn'',25),(''harvard'',95),(''stanford'',95),
     (''mit'',95),(''iit'',95),(''oxford'',90),(''cambridge'',90),(''yale'',90),(''princeton'',90),(''columbia'',90),
     (''caltech'',95),(''cornell'',90),(''ucla'',85),(''nyu'',85),(''geeksforgeeks'',20),(''codechef'',20),(''hackerrank'',20),
     (''leetcode'',20),(''freecodecamp'',15),(''sololearn'',15),(''nptel'',40),(''greatlearning'',25),(''upgrad'',25),
     (''coursera-google'',75),(''coursera-aws'',80),(''aws-developer'',80),(''google-ai'',75),(''deepmind'',85),
     (''ibm'',70),(''oracle'',65),(''sap'',60),(''accenture'',50),(''tcs'',50),(''infosys'',50),(''wipro'',50),(''capgemini'',50),
     (''nasa'',95),(''spacex'',95),(''tesla'',90),(''facebook'',75),(''meta'',75),(''twitter'',70),(''apple'',80),
     (''geeksforgeeks-cs'',20)]"

definition ISSUER_ALIASES :: "(string \<times> string) list" where
  "ISSUER_ALIASES =
    [(''bm developer skills network'', ''ibm''),
     (''ibm skills'', ''ibm''),
     (''oracle university'', ''oracle''),
     (''geeksforgeeks'', ''geeksforgeeks''),
     (''gfg'', ''geeksforgeeks''),
     (''coursera google'', ''coursera-google''),
     (''coursera aws'', ''coursera-aws'')]"

definition PROJECT_KEYWORDS :: "string list" where
  "PROJECT_KEYWORDS = [''capstone'', ''project'', ''portfolio'', ''hands-on'', ''lab'', ''practical'']"

definition ASSESSMENT_KEYWORDS :: "string list" where
  "ASSESSMENT_KEYWORDS =
     [''exam'', ''proctored'', ''invigilat'', ''graded'', ''assess'', ''final exam'', ''passing'']"

definition PREREQ_KEYWORDS :: "string list" where
  "PREREQ_KEYWORDS =
     [''prerequisite'', ''prereq'', ''prior knowledge'', ''experience required'', ''requirement'']"

section \<open>Feature records and the tier calculation\<close>

datatype verification_reason = proctored | blockchain | registry | simple_link | none

record tags =
  project :: bool
  assessment :: bool
  prerequisite :: bool

text \<open>
  The \<open>features\<close> dictionary. The fields read by \<open>compute_certificate_tier\<close> through
  \<open>features.get(key, default)\<close> are optional: \<open>None\<close> is an absent key. The two
  fields the function passes through \<open>int(...)\<close> hold integers, a boolean being 0 or 1.
\<close>

record features =
  issuer :: string
  issuer_rep :: "rat option"
  duration_hours :: "rat option"
  has_project :: "int option"
  project_complexity :: "rat option"
  assessment_rigor :: "rat option"
  prerequisites_required :: "int option"
  industry_recognition :: "rat option"
  verified :: "bool option"
  verification_reason :: verification_reason
  tags :: tags

record score_result =
  score :: rat
  tier :: nat

text \<open>The local \<open>weights\<close> dictionary; every key the function reads is present.\<close>

definition weights :: "(string \<times> rat) list" where
  "weights = [(''issuer_rep'', 35/100), (''assessment'', 25/100), (''project'', 20/100),
              (''time'', 10/100), (''industry'', 10/100), (''prereq'', 0)]"

definition weight :: "string \<Rightarrow> rat" where
  "weight k = (case map_of weights k of Some w \<Rightarrow> w | None \<Rightarrow> 0)"

text \<open>The clamped composite, before rounding: the local variable \<open>score\<close> of the source.\<close>

definition raw_score :: "features \<Rightarrow> rat" where
  "raw_score f =
     (let issuer_rep_v = dict_get (issuer_rep f) 25;
          time_h = dict_get (duration_hours f) 0;
          assessment_v = dict_get (assessment_rigor f) 20;
          proj_req = dict_get (has_project f) 0;
          proj_comp = dict_get (project_complexity f) 0;
          prereq = dict_get (prerequisites_required f) 0;
          industry = dict_get (industry_recognition f) 20;
          time_score = py_max 0 (py_min 100 ((time_h / 200) * 100));
          verify_bonus = (if dict_get (verified f) False then 10 else 0);
          project_score = (if proj_req \<noteq> 0 then proj_comp else 0);
          composite =
            issuer_rep_v * weight ''issuer_rep'' +
            assessment_v * weight ''assessment'' +
            project_score * weight ''project'' +
            time_score * weight ''time'' +
            industry * weight ''industry'' +
            (of_int prereq * 100) * weight ''prereq'';
          composite = composite + verify_bonus
      in py_max 0 (py_min 100 composite))"

definition tier_of :: "rat \<Rightarrow> nat" where
  "tier_of s = (if s \<ge> 80 then 1 else if s \<ge> 60 then 2 else if s \<ge> 40 then 3 else 4)"

definition compute_certificate_tier ::
  "features \<Rightarrow> (string \<times> int) list option \<Rightarrow> score_result" where
  "compute_certificate_tier f issuer_db =
     (let issuer_db = (case issuer_db of None \<Rightarrow> ISSUER_DB | Some db \<Rightarrow> db);
          s = raw_score f
      in \<lparr>score = py_round2 s, tier = tier_of s\<rparr>)"

section \<open>Feature extraction\<close>

datatype error = TypeError | ValueError | AttributeError

definition find_verification_link :: "string \<Rightarrow> string option" where
  "find_verification_link text =
     (case search True GENERIC_VERIFY_REGEX text of
        None \<Rightarrow> None
      | Some mt \<Rightarrow> Some (strip (group0 mt)))"

text \<open>
  \<open>rapidfuzz.process.extractOne(query, choices, score_cutoff)\<close> is a library function
  outside the repository: the functions that call it take it as the parameter \<open>ex\<close>. It
  returns nothing, or a triple of the chosen key, its similarity and its index.
\<close>

type_synonym extract_one = "string \<Rightarrow> string list \<Rightarrow> rat \<Rightarrow> (string \<times> rat \<times> nat) option"

text \<open>\<open>issuer_db.get(name, dflt)\<close>\<close>

definition db_get :: "(string \<times> int) list \<Rightarrow> string \<Rightarrow> int \<Rightarrow> int" where
  "db_get issuer_db name dflt = (case map_of issuer_db name of None \<Rightarrow> dflt | Some v \<Rightarrow> v)"

text \<open>The loop over \<open>ISSUER_ALIASES.items()\<close>: \<open>None\<close> when it ends without returning.\<close>

fun alias_loop ::
  "string \<Rightarrow> (string \<times> int) list \<Rightarrow> (string \<times> string) list \<Rightarrow> (string option \<times> int) option" where
  "alias_loop text issuer_db [] = None"
| "alias_loop text issuer_db ((alias, name) # rest) =
     (if substring_in alias text then Some (Some name, db_get issuer_db name 25)
      else alias_loop text issuer_db rest)"

definition fuzzy_lookup_issuer ::
  "extract_one \<Rightarrow> string \<Rightarrow> (string \<times> int) list \<Rightarrow> string option \<times> int" where
  "fuzzy_lookup_issuer ex ocr_text issuer_db =
     (let text = py_lower ocr_text
      in case alias_loop text issuer_db ISSUER_ALIASES of
           Some found \<Rightarrow> found
         | None \<Rightarrow>
             (case ex text (map fst issuer_db) 30 of
                Some best \<Rightarrow> (Some (fst best), db_get issuer_db (fst best) 25)
              | None \<Rightarrow> (None, 25)))"

text \<open>
  \<open>float(s)\<close> on a decimal numeral: digits, then optionally a point and further digits.
  These are the strings group 1 of \<open>TIME_REGEX\<close> can hold. On every other string this
  model answers \<open>ValueError\<close> (Python's \<open>float\<close> also reads signs, exponents, blanks and
  the words \<open>inf\<close> and \<open>nan\<close>).
\<close>

definition digits_value :: "string \<Rightarrow> nat" where
  "digits_value ds = foldl (\<lambda>a c. 10 * a + (code c - 48)) 0 ds"

definition py_float :: "string \<Rightarrow> error + rat" where
  "py_float s =
     (let ip = takeWhile is_digit s; r = dropWhile is_digit s
      in if ip = [] then Inl ValueError
         else case r of
                [] \<Rightarrow> Inr (of_nat (digits_value ip))
              | c # fp \<Rightarrow>
                  if c = CHR ''.'' \<and> list_all is_digit fp
                  then Inr (of_nat (digits_value ip) + of_nat (digits_value fp) / 10 ^ length fp)
                  else Inl ValueError)"

definition extract_time_commitment :: "string \<Rightarrow> error + rat" where
  "extract_time_commitment ocr_text =
     (case search True TIME_REGEX ocr_text of
        None \<Rightarrow> Inr 0
      | Some m \<Rightarrow>
          (case group m 1 of
             None \<Rightarrow> Inl TypeError
           | Some g1 \<Rightarrow>
               (case py_float g1 of
                  Inl e \<Rightarrow> Inl e
                | Inr val \<Rightarrow>
                    (case group m 2 of
                       None \<Rightarrow> Inl AttributeError
                     | Some g2 \<Rightarrow>
                         (let u = py_lower g2
                          in if substring_in ''week'' u then Inr (val * 10)
                             else if substring_in ''month'' u then Inr (val * 40)
                             else Inr val)))))"

definition detect_keywords :: "string \<Rightarrow> string list \<Rightarrow> bool" where
  "detect_keywords ocr_text keywords =
     (let text = py_lower ocr_text in list_ex (\<lambda>k. substring_in k text) keywords)"

text \<open>The truth value of an optional string: \<open>None\<close> and the empty string are false.\<close>

definition truthy :: "string option \<Rightarrow> bool" where
  "truthy v = (case v of None \<Rightarrow> False | Some s \<Rightarrow> s \<noteq> [])"

definition guess_verification_method :: "string \<Rightarrow> string option \<Rightarrow> verification_reason" where
  "guess_verification_method ocr_text verification_link =
     (let text = py_lower ocr_text
      in if substring_in ''proct'' text \<or> substring_in ''invigil'' text then proctored
         else if substring_in ''blockchain'' text then blockchain
         else if truthy verification_link then
           (if list_ex (\<lambda>x. substring_in x (py_lower (dict_get verification_link [])))
                 [''verify'', ''certificate'', ''registry'', ''credentials'']
            then registry else simple_link)
         else none)"

text \<open>
  The vocabulary \<open>SKILL_TAGS\<close> is read from \<open>skills_db.json\<close>, which is not part of the
  sources: it is a parameter. \<open>re.escape\<close> makes every character of the skill a literal.
\<close>

definition skill_regex :: "string \<Rightarrow> regex" where
  "skill_regex skill = seq [RWordB, literal (py_lower skill), RWordB]"

definition extract_skills :: "string list \<Rightarrow> string \<Rightarrow> string set" where
  "extract_skills SKILL_TAGS text =
     (let lower_text = py_lower text;
          found_skills = filter (\<lambda>skill. search False (skill_regex skill) lower_text \<noteq> None) SKILL_TAGS
      in set found_skills)"

section \<open>The analysis of a text\<close>

text \<open>
  \<open>analyze_certificate\<close> from the point where the text of the file has been extracted.
  The fields \<open>issuer\<close>, \<open>features\<close>, \<open>skills\<close>, \<open>tags\<close> and \<open>result\<close> of its output carry the
  prefix \<open>out_\<close> here.
\<close>

record analysis =
  out_issuer :: string
  out_features :: features
  out_skills :: "string set"
  out_tags :: "string set"
  out_result :: score_result
  raw_text_snippet :: string

definition analyze_text ::
  "extract_one \<Rightarrow> string list \<Rightarrow> string \<Rightarrow> (string \<times> int) list option \<Rightarrow> error + analysis" where
  "analyze_text ex SKILL_TAGS text issuer_db =
     (let verification_link = find_verification_link text;
          found = fuzzy_lookup_issuer ex text
                    (case issuer_db of None \<Rightarrow> ISSUER_DB | Some db \<Rightarrow> if db = [] then ISSUER_DB else db);
          issuer_name = fst found;
          issuer_rep_v = snd found
      in case extract_time_commitment text of
           Inl e \<Rightarrow> Inl e
         | Inr duration \<Rightarrow>
             (let project_present = detect_keywords text PROJECT_KEYWORDS;
                  project_complexity_v =
                    (if project_present \<and> (substring_in ''capstone'' (py_lower text)
                                             \<or> substring_in ''portfolio'' (py_lower text))
                     then 70 else (if project_present then 40 else 0));
                  assessment_present = detect_keywords text ASSESSMENT_KEYWORDS;
                  assessment_rigor_v =
                    (if substring_in ''proct'' (py_lower text) \<or> substring_in ''invigil'' (py_lower text)
                     then 80 else (if assessment_present then 60 else 20));
                  prereq_present = detect_keywords text PREREQ_KEYWORDS;
                  verified_v = truthy verification_link;
                  verification_reason_v = guess_verification_method text verification_link;
                  skills = extract_skills SKILL_TAGS text;
                  tags_v = (case issuer_name of None \<Rightarrow> {} | Some n \<Rightarrow> if n = [] then {} else {n}) \<union> skills;
                  name = (case issuer_name of None \<Rightarrow> ''unknown'' | Some n \<Rightarrow> if n = [] then ''unknown'' else n);
                  fs = \<lparr>issuer = name,
                        issuer_rep = Some (of_int issuer_rep_v),
                        duration_hours = Some duration,
                        has_project = Some (if project_present then 1 else 0),
                        project_complexity = Some project_complexity_v,
                        assessment_rigor = Some assessment_rigor_v,
                        prerequisites_required = Some (if prereq_present then 1 else 0),
                        industry_recognition = Some (of_int issuer_rep_v),
                        verified = Some verified_v,
                        verification_reason = verification_reason_v,
                        tags = \<lparr>project = project_present, assessment = assessment_present,
                                 prerequisite = prereq_present\<rparr>\<rparr>;
                  res = compute_certificate_tier fs issuer_db
              in Inr \<lparr>out_issuer = name, out_features = fs, out_skills = skills, out_tags = tags_v,
                       out_result = res, raw_text_snippet = take 500 text\<rparr>))"

section \<open>Duration phrases\<close>

text \<open>
  The phrases the time-commitment parser looks for, described without the regular
  expression: a number followed by an optional \<open>total\<close> and a unit.
\<close>

text \<open>The units and the hours each stands for.\<close>

definition UNIT_HOURS :: "(string \<times> rat) list" where
  "UNIT_HOURS = [(''hours'', 1), (''hrs'', 1), (''h'', 1), (''weeks'', 10), (''week'', 10),
                 (''months'', 40), (''month'', 40)]"

text \<open>A number: digits, optionally followed by a point and further digits.\<close>

definition decimal_number :: "string \<Rightarrow> bool" where
  "decimal_number n \<longleftrightarrow>
     (\<exists>d1 d2. d1 \<noteq> [] \<and> list_all is_digit d1 \<and> list_all is_digit d2 \<and> (n = d1 \<or> n = d1 @ ''.'' @ d2))"

text \<open>Nothing, or the word \<open>total\<close> in any case of letters and blanks after it.\<close>

definition optional_total :: "string \<Rightarrow> bool" where
  "optional_total x \<longleftrightarrow>
     x = [] \<or> (\<exists>tot sp. x = tot @ sp \<and> py_lower tot = ''total'' \<and> list_all is_space sp)"

text \<open>
  \<open>w\<close> is a duration phrase with number \<open>num\<close> and unit \<open>u\<close>: the number, blanks, the
  optional \<open>total\<close>, and a unit in any case of letters.
\<close>

definition duration_phrase :: "string \<Rightarrow> string \<Rightarrow> string \<Rightarrow> bool" where
  "duration_phrase num u w \<longleftrightarrow>
     decimal_number num \<and> py_lower u \<in> fst ` set UNIT_HOURS
     \<and> (\<exists>sp x. list_all is_space sp \<and> optional_total x \<and> w = num @ sp @ x @ u)"

text \<open>The parts of \<open>TIME_REGEX\<close>: group 1, the optional part and group 2.\<close>

definition time_number :: regex where
  "time_number = seq [RRep (Class False [Digits]) 1 None, ROpt (RAtom (Lit CHR ''.'')),
                      RRep (Class False [Digits]) 0 None]"

definition time_total :: regex where
  "time_total = seq [literal ''total'', RRep (Class False [Spaces]) 0 None]"

definition time_unit :: regex where
  "time_unit = alt [literal ''hours'', literal ''hrs'', literal ''h'', literal ''weeks'',
                    literal ''week'', literal ''months'', literal ''month'']"

text \<open>The hours of a unit are decided by its first letter.\<close>

definition first_letter_hours :: "char \<Rightarrow> rat" where
  "first_letter_hours c =
     (if lower_char c = CHR ''h'' then 1 else if lower_char c = CHR ''w'' then 10 else 40)"

text \<open>What follows the number of a phrase starts with a blank or a letter.\<close>

definition after_number :: "string \<Rightarrow> bool" where
  "after_number r \<longleftrightarrow> r \<noteq> [] \<and> \<not> is_digit (hd r) \<and> hd r \<noteq> CHR ''.''"

definition after_blanks :: "string \<Rightarrow> bool" where
  "after_blanks r \<longleftrightarrow> r \<noteq> [] \<and> \<not> is_space (hd r)"

section \<open>Parts of the verification expression\<close>

text \<open>The two alternatives of \<open>GENERIC_VERIFY_REGEX\<close>.\<close>

definition verify_url :: regex where
  "verify_url = seq [literal ''http'', ROpt (RAtom (Lit CHR ''s'')), literal ''://'',
                     RRep (Class True [Spaces]) 1 None]"

definition verify_code :: regex where
  "verify_code = seq [RWordB,
             RRep (Class False [Range CHR ''A'' CHR ''Z'', Range CHR ''0'' CHR ''9'']) 5 (Some 12),
             RWordB]"

section \<open>Properties of the tier calculation\<close>

lemma weight_simps:
  "weight ''issuer_rep'' = 35/100" "weight ''assessment'' = 25/100" "weight ''project'' = 20/100"
  "weight ''time'' = 10/100" "weight ''industry'' = 10/100" "weight ''prereq'' = 0"
  by (simp_all add: weight_def weights_def)

lemma py_clamp: "py_max 0 (py_min 100 x) = max 0 (min 100 x)"
  by (simp add: py_min_def py_max_def)


lemma clamp_mono: "x \<le> y \<Longrightarrow> max 0 (min 100 x) \<le> max 0 (min 100 (y::rat))"
  by simp

text \<open>The unrounded score with the weights looked up and the locals substituted.\<close>

lemma raw_score_alt:
  "raw_score f =
     max 0 (min 100
       (dict_get (issuer_rep f) 25 * (35/100) + dict_get (assessment_rigor f) 20 * (25/100)
        + (if dict_get (has_project f) 0 \<noteq> 0 then dict_get (project_complexity f) 0 else 0) * (20/100)
        + max 0 (min 100 (dict_get (duration_hours f) 0 / 200 * 100)) * (10/100)
        + dict_get (industry_recognition f) 20 * (10/100)
        + (if dict_get (verified f) False then 10 else 0)))"
  unfolding raw_score_def Let_def weight_simps py_clamp by simp


lemma score_eq: "score (compute_certificate_tier f db) = py_round2 (raw_score f)"
  by (simp add: compute_certificate_tier_def Let_def)


subsection \<open>Rounding to two decimals\<close>


lemma round_half_even_lower: "\<lfloor>y\<rfloor> \<le> round_half_even y"
  by (simp add: round_half_even_def Let_def)

lemma round_half_even_upper: "round_half_even y \<le> \<lfloor>y\<rfloor> + 1"
  by (simp add: round_half_even_def Let_def)

lemma round_half_even_mono:
  assumes "x \<le> y"
  shows "round_half_even x \<le> round_half_even y"
proof (cases "\<lfloor>x\<rfloor> = \<lfloor>y\<rfloor>")
  case True
  with assms show ?thesis
    by (auto simp add: round_half_even_def Let_def)
next
  case False
  with assms have "\<lfloor>x\<rfloor> < \<lfloor>y\<rfloor>"
    using floor_mono[of x y] by linarith
  then have "round_half_even x \<le> \<lfloor>y\<rfloor>"
    using round_half_even_upper[of x] by linarith
  then show ?thesis
    using round_half_even_lower[of y] by linarith
qed

lemma py_round2_mono: "x \<le> y \<Longrightarrow> py_round2 x \<le> py_round2 y"
  using round_half_even_mono[of "x * 100" "y * 100"]
  by (simp add: py_round2_def divide_right_mono)






subsection \<open>Bounds\<close>



subsection \<open>Tier thresholds\<close>




subsection \<open>Monotonicity\<close>

lemma raw_mono_issuer_rep:
  "a \<le> b \<Longrightarrow> raw_score (f\<lparr>issuer_rep := Some a\<rparr>) \<le> raw_score (f\<lparr>issuer_rep := Some b\<rparr>)"
  unfolding raw_score_alt by (rule clamp_mono) (simp add: dict_get_def)

lemma raw_mono_assessment_rigor:
  "a \<le> b \<Longrightarrow>
   raw_score (f\<lparr>assessment_rigor := Some a\<rparr>) \<le> raw_score (f\<lparr>assessment_rigor := Some b\<rparr>)"
  unfolding raw_score_alt by (rule clamp_mono) (simp add: dict_get_def)

lemma raw_mono_project_complexity:
  "a \<le> b \<Longrightarrow>
   raw_score (f\<lparr>project_complexity := Some a\<rparr>) \<le> raw_score (f\<lparr>project_complexity := Some b\<rparr>)"
  unfolding raw_score_alt by (rule clamp_mono) (simp add: dict_get_def)

lemma raw_mono_duration_hours:
  assumes "a \<le> b"
  shows "raw_score (f\<lparr>duration_hours := Some a\<rparr>) \<le> raw_score (f\<lparr>duration_hours := Some b\<rparr>)"
proof -
  have "max 0 (min 100 (a / 200 * 100)) \<le> max 0 (min 100 (b / 200 * 100))"
    using assms by (intro clamp_mono) simp
  then show ?thesis
    unfolding raw_score_alt by (intro clamp_mono) (simp add: dict_get_def)
qed

lemma raw_mono_industry_recognition:
  "a \<le> b \<Longrightarrow>
   raw_score (f\<lparr>industry_recognition := Some a\<rparr>) \<le> raw_score (f\<lparr>industry_recognition := Some b\<rparr>)"
  unfolding raw_score_alt by (rule clamp_mono) (simp add: dict_get_def)

lemma raw_mono_verified:
  "raw_score (f\<lparr>verified := Some False\<rparr>) \<le> raw_score (f\<lparr>verified := Some True\<rparr>)"
  unfolding raw_score_alt by (rule clamp_mono) (simp add: dict_get_def)

text \<open>
  C3. Of two feature records that differ only in \<open>issuer_rep\<close>, in \<open>assessment_rigor\<close>,
  in \<open>project_complexity\<close> (the project flag being set), in \<open>duration_hours\<close> or in
  \<open>industry_recognition\<close>, the one with the greater value has a score at least as high;
  and so has a record with \<open>verified\<close> true against the same record with \<open>verified\<close> false.
\<close>

theorem score_monotone:
  assumes "a \<le> b"
  shows
    "score (compute_certificate_tier (f\<lparr>issuer_rep := Some a\<rparr>) db)
       \<le> score (compute_certificate_tier (f\<lparr>issuer_rep := Some b\<rparr>) db)
     \<and> score (compute_certificate_tier (f\<lparr>assessment_rigor := Some a\<rparr>) db)
       \<le> score (compute_certificate_tier (f\<lparr>assessment_rigor := Some b\<rparr>) db)
     \<and> (dict_get (has_project f) 0 \<noteq> 0 \<longrightarrow>
         score (compute_certificate_tier (f\<lparr>project_complexity := Some a\<rparr>) db)
           \<le> score (compute_certificate_tier (f\<lparr>project_complexity := Some b\<rparr>) db))
     \<and> score (compute_certificate_tier (f\<lparr>duration_hours := Some a\<rparr>) db)
       \<le> score (compute_certificate_tier (f\<lparr>duration_hours := Some b\<rparr>) db)
     \<and> score (compute_certificate_tier (f\<lparr>industry_recognition := Some a\<rparr>) db)
       \<le> score (compute_certificate_tier (f\<lparr>industry_recognition := Some b\<rparr>) db)
     \<and> score (compute_certificate_tier (f\<lparr>verified := Some False\<rparr>) db)
       \<le> score (compute_certificate_tier (f\<lparr>verified := Some True\<rparr>) db)"
  unfolding score_eq
  using assms
  by (intro conjI impI py_round2_mono raw_mono_issuer_rep raw_mono_assessment_rigor
      raw_mono_project_complexity raw_mono_duration_hours raw_mono_industry_recognition
      raw_mono_verified)

text \<open>Raising each input of a mid-range record from 10 to 90 in turn.\<close>

theorem score_monotone_witness:
  "(10::rat) \<le> 90
   \<and> dict_get (has_project \<lparr>issuer = ''coursera'', issuer_rep = Some 30, duration_hours = Some 40,
        has_project = Some 1, project_complexity = Some 70, assessment_rigor = Some 20,
        prerequisites_required = Some 0, industry_recognition = Some 30, verified = Some True,
        verification_reason = registry,
        tags = \<lparr>project = True, assessment = False, prerequisite = False\<rparr>\<rparr>) 0 \<noteq> 0
   \<and> score (compute_certificate_tier (\<lparr>issuer = ''coursera'', issuer_rep = Some 30, duration_hours = Some 40,
        has_project = Some 1, project_complexity = Some 70, assessment_rigor = Some 20,
        prerequisites_required = Some 0, industry_recognition = Some 30, verified = Some True,
        verification_reason = registry,
        tags = \<lparr>project = True, assessment = False, prerequisite = False\<rparr>\<rparr>
        \<lparr>issuer_rep := Some 10\<rparr>) None) = 3750/100
   \<and> score (compute_certificate_tier (\<lparr>issuer = ''coursera'', issuer_rep = Some 30, duration_hours = Some 40,
        has_project = Some 1, project_complexity = Some 70, assessment_rigor = Some 20,
        prerequisites_required = Some 0, industry_recognition = Some 30, verified = Some True,
        verification_reason = registry,
        tags = \<lparr>project = True, assessment = False, prerequisite = False\<rparr>\<rparr>
        \<lparr>issuer_rep := Some 90\<rparr>) None) = 6550/100
   \<and> score (compute_certificate_tier (\<lparr>issuer = ''coursera'', issuer_rep = Some 30, duration_hours = Some 40,
        has_project = Some 1, project_complexity = Some 70, assessment_rigor = Some 20,
        prerequisites_required = Some 0, industry_recognition = Some 30, verified = Some True,
        verification_reason = registry,
        tags = \<lparr>project = True, assessment = False, prerequisite = False\<rparr>\<rparr>
        \<lparr>project_complexity := Some 10\<rparr>) None)
       \<le> score (compute_certificate_tier (\<lparr>issuer = ''coursera'', issuer_rep = Some 30, duration_hours = Some 40,
        has_project = Some 1, project_complexity = Some 70, assessment_rigor = Some 20,
        prerequisites_required = Some 0, industry_recognition = Some 30, verified = Some True,
        verification_reason = registry,
        tags = \<lparr>project = True, assessment = False, prerequisite = False\<rparr>\<rparr>
        \<lparr>project_complexity := Some 90\<rparr>) None)
   \<and> score (compute_certificate_tier (\<lparr>issuer = ''coursera'', issuer_rep = Some 30, duration_hours = Some 40,
        has_project = Some 1, project_complexity = Some 70, assessment_rigor = Some 20,
        prerequisites_required = Some 0, industry_recognition = Some 30, verified = Some True,
        verification_reason = registry,
        tags = \<lparr>project = True, assessment = False, prerequisite = False\<rparr>\<rparr>
        \<lparr>verified := Some False\<rparr>) None)
       \<le> score (compute_certificate_tier (\<lparr>issuer = ''coursera'', issuer_rep = Some 30, duration_hours = Some 40,
        has_project = Some 1, project_complexity = Some 70, assessment_rigor = Some 20,
        prerequisites_required = Some 0, industry_recognition = Some 30, verified = Some True,
        verification_reason = registry,
        tags = \<lparr>project = True, assessment = False, prerequisite = False\<rparr>\<rparr>
        \<lparr>verified := Some True\<rparr>) None)"
proof -
  have h: "(10::rat) \<le> 90" by simp
  have p: "dict_get (has_project \<lparr>issuer = ''coursera'', issuer_rep = Some 30, duration_hours = Some 40,
        has_project = Some 1, project_complexity = Some 70, assessment_rigor = Some 20,
        prerequisites_required = Some 0, industry_recognition = Some 30, verified = Some True,
        verification_reason = registry,
        tags = \<lparr>project = True, assessment = False, prerequisite = False\<rparr>\<rparr>) 0 \<noteq> 0"
    by (simp add: dict_get_def)
  have v: "score (compute_certificate_tier (\<lparr>issuer = ''coursera'', issuer_rep = Some 30, duration_hours = Some 40,
        has_project = Some 1, project_complexity = Some 70, assessment_rigor = Some 20,
        prerequisites_required = Some 0, industry_recognition = Some 30, verified = Some True,
        verification_reason = registry,
        tags = \<lparr>project = True, assessment = False, prerequisite = False\<rparr>\<rparr>
        \<lparr>issuer_rep := Some 10\<rparr>) None) = 3750/100"
    "score (compute_certificate_tier (\<lparr>issuer = ''coursera'', issuer_rep = Some 30, duration_hours = Some 40,
        has_project = Some 1, project_complexity = Some 70, assessment_rigor = Some 20,
        prerequisites_required = Some 0, industry_recognition = Some 30, verified = Some True,
        verification_reason = registry,
        tags = \<lparr>project = True, assessment = False, prerequisite = False\<rparr>\<rparr>
        \<lparr>issuer_rep := Some 90\<rparr>) None) = 6550/100"
    by code_simp+
  show ?thesis
    using score_monotone[OF h, of "\<lparr>issuer = ''coursera'', issuer_rep = Some 30, duration_hours = Some 40,
        has_project = Some 1, project_complexity = Some 70, assessment_rigor = Some 20,
        prerequisites_required = Some 0, industry_recognition = Some 30, verified = Some True,
        verification_reason = registry,
        tags = \<lparr>project = True, assessment = False, prerequisite = False\<rparr>\<rparr>" None] h p v by blast
qed

subsection \<open>Inert inputs\<close>

lemma raw_score_prereq: "raw_score (f\<lparr>prerequisites_required := p\<rparr>) = raw_score f"
  unfolding raw_score_alt by simp

text \<open>
  C9. The score and the tier are the same whether \<open>prerequisites_required\<close> is 0, is 1 or
  is absent, all other fields being equal: its weight is in the table, and is 0.
\<close>

theorem prerequisites_inert:
  "compute_certificate_tier (f\<lparr>prerequisites_required := Some 0\<rparr>) db
     = compute_certificate_tier (f\<lparr>prerequisites_required := Some 1\<rparr>) db
   \<and> compute_certificate_tier (f\<lparr>prerequisites_required := None\<rparr>) db
     = compute_certificate_tier (f\<lparr>prerequisites_required := Some 1\<rparr>) db
   \<and> weight ''prereq'' = 0 \<and> ''prereq'' \<in> fst ` set weights"
  by (simp add: compute_certificate_tier_def Let_def raw_score_prereq weight_simps weights_def)

text \<open>
  C10. The result depends on the feature record alone: any two values of the argument
  \<open>issuer_db\<close>, the default \<open>None\<close> included, give the same score and tier.
\<close>

theorem issuer_db_unused:
  "compute_certificate_tier f db1 = compute_certificate_tier f db2"
  by (simp add: compute_certificate_tier_def Let_def)

theorem issuer_db_unused_witness:
  "compute_certificate_tier \<lparr>issuer = ''coursera'', issuer_rep = Some 30, duration_hours = Some 40,
        has_project = Some 1, project_complexity = Some 70, assessment_rigor = Some 20,
        prerequisites_required = Some 0, industry_recognition = Some 30, verified = Some True,
        verification_reason = registry,
        tags = \<lparr>project = True, assessment = False, prerequisite = False\<rparr>\<rparr> None = compute_certificate_tier \<lparr>issuer = ''coursera'', issuer_rep = Some 30, duration_hours = Some 40,
        has_project = Some 1, project_complexity = Some 70, assessment_rigor = Some 20,
        prerequisites_required = Some 0, industry_recognition = Some 30, verified = Some True,
        verification_reason = registry,
        tags = \<lparr>project = True, assessment = False, prerequisite = False\<rparr>\<rparr> (Some [(''udemy'', 100)])
   \<and> compute_certificate_tier \<lparr>issuer = ''coursera'', issuer_rep = Some 30, duration_hours = Some 40,
        has_project = Some 1, project_complexity = Some 70, assessment_rigor = Some 20,
        prerequisites_required = Some 0, industry_recognition = Some 30, verified = Some True,
        verification_reason = registry,
        tags = \<lparr>project = True, assessment = False, prerequisite = False\<rparr>\<rparr> None = compute_certificate_tier \<lparr>issuer = ''coursera'', issuer_rep = Some 30, duration_hours = Some 40,
        has_project = Some 1, project_complexity = Some 70, assessment_rigor = Some 20,
        prerequisites_required = Some 0, industry_recognition = Some 30, verified = Some True,
        verification_reason = registry,
        tags = \<lparr>project = True, assessment = False, prerequisite = False\<rparr>\<rparr> (Some [])"
  using issuer_db_unused[of "\<lparr>issuer = ''coursera'', issuer_rep = Some 30, duration_hours = Some 40,
        has_project = Some 1, project_complexity = Some 70, assessment_rigor = Some 20,
        prerequisites_required = Some 0, industry_recognition = Some 30, verified = Some True,
        verification_reason = registry,
        tags = \<lparr>project = True, assessment = False, prerequisite = False\<rparr>\<rparr>" None "Some [(''udemy'', 100)]"]
    issuer_db_unused[of "\<lparr>issuer = ''coursera'', issuer_rep = Some 30, duration_hours = Some 40,
        has_project = Some 1, project_complexity = Some 70, assessment_rigor = Some 20,
        prerequisites_required = Some 0, industry_recognition = Some 30, verified = Some True,
        verification_reason = registry,
        tags = \<lparr>project = True, assessment = False, prerequisite = False\<rparr>\<rparr>" None "Some []"]
  by simp

section \<open>Properties of the issuer resolver\<close>

lemma substring_in_iff: "substring_in needle hay \<longleftrightarrow> (\<exists>p s. hay = p @ needle @ s)"
proof (induction hay)
  case Nil
  show ?case by simp
next
  case (Cons c cs)
  show ?case
  proof
    assume "substring_in needle (c # cs)"
    then consider "prefix needle (c # cs)" | "substring_in needle cs" by auto
    then show "\<exists>p s. c # cs = p @ needle @ s"
    proof cases
      case 1
      then obtain s where "c # cs = needle @ s" by (auto simp: prefix_def)
      then have "c # cs = [] @ needle @ s" by simp
      then show ?thesis by blast
    next
      case 2
      with Cons.IH obtain p s where "cs = p @ needle @ s" by blast
      then have "c # cs = (c # p) @ needle @ s" by simp
      then show ?thesis by blast
    qed
  next
    assume "\<exists>p s. c # cs = p @ needle @ s"
    then obtain p s where e: "c # cs = p @ needle @ s" by blast
    show "substring_in needle (c # cs)"
    proof (cases p)
      case Nil
      with e have "prefix needle (c # cs)" by (simp add: prefix_def)
      then show ?thesis by simp
    next
      case (Cons d p')
      with e have "cs = p' @ needle @ s" by simp
      with Cons.IH have "substring_in needle cs" by blast
      then show ?thesis by simp
    qed
  qed
qed

lemma alias_loop_first:
  assumes "i < length al" "substring_in (fst (al ! i)) text"
    "\<forall>j<i. \<not> substring_in (fst (al ! j)) text"
  shows "alias_loop text db al = Some (Some (snd (al ! i)), db_get db (snd (al ! i)) 25)"
  using assms
proof (induction al arbitrary: i)
  case Nil
  then show ?case by simp
next
  case (Cons a al)
  obtain ak av where a: "a = (ak, av)" by (cases a)
  show ?case
  proof (cases i)
    case 0
    with Cons.prems a show ?thesis by simp
  next
    case (Suc k)
    with Cons.prems have "\<not> substring_in ak text" using a by auto
    moreover have "alias_loop text db al = Some (Some (snd (al ! k)), db_get db (snd (al ! k)) 25)"
    proof (rule Cons.IH)
      show "k < length al" using Cons.prems Suc by simp
      show "substring_in (fst (al ! k)) text" using Cons.prems Suc by simp
      show "\<forall>j<k. \<not> substring_in (fst (al ! j)) text"
      proof (intro allI impI)
        fix j assume "j < k"
        then have "Suc j < i" using Suc by simp
        with Cons.prems(3) have "\<not> substring_in (fst ((a # al) ! Suc j)) text" by blast
        then show "\<not> substring_in (fst (al ! j)) text" by simp
      qed
    qed
    ultimately show ?thesis using a Suc by simp
  qed
qed

text \<open>
  C4. When an alias of the table occurs in the lowercased text, the resolver returns the
  canonical key of the first such alias in table order together with that key's
  reputation, 25 if the reputation table lacks the key. This holds for every fuzzy
  matcher \<open>ex\<close>: the result does not depend on it.
\<close>

theorem alias_precedence:
  assumes "i < length ISSUER_ALIASES"
    and "\<exists>p s. py_lower text = p @ fst (ISSUER_ALIASES ! i) @ s"
    and "\<forall>j<i. \<not> (\<exists>p s. py_lower text = p @ fst (ISSUER_ALIASES ! j) @ s)"
  shows "fuzzy_lookup_issuer ex text issuer_db =
           (Some (snd (ISSUER_ALIASES ! i)),
            case map_of issuer_db (snd (ISSUER_ALIASES ! i)) of None \<Rightarrow> 25 | Some rep \<Rightarrow> rep)
         \<and> fuzzy_lookup_issuer ex text issuer_db = fuzzy_lookup_issuer ex' text issuer_db"
proof -
  have "alias_loop (py_lower text) issuer_db ISSUER_ALIASES =
          Some (Some (snd (ISSUER_ALIASES ! i)), db_get issuer_db (snd (ISSUER_ALIASES ! i)) 25)"
    using assms by (intro alias_loop_first) (simp_all add: substring_in_iff)
  then show ?thesis
    by (simp add: fuzzy_lookup_issuer_def Let_def db_get_def)
qed

text \<open>
  The text holds the alias \<open>ibm skills\<close> and the key \<open>aws\<close>, which the fuzzy matcher
  here would choose with the highest similarity: the alias wins.
\<close>

theorem alias_precedence_witness:
  "(1::nat) < length ISSUER_ALIASES
   \<and> (\<exists>p s. py_lower ''IBM Skills Network on AWS'' = p @ fst (ISSUER_ALIASES ! 1) @ s)
   \<and> fuzzy_lookup_issuer (\<lambda>query choices cutoff. Some (''aws'', 100, 3))
        ''IBM Skills Network on AWS'' ISSUER_DB = (Some ''ibm'', 70)"
proof -
  have a1: "ISSUER_ALIASES ! 1 = (''ibm skills'', ''ibm'')"
    and a0: "ISSUER_ALIASES ! 0 = (''bm developer skills network'', ''ibm'')"
    and l: "(1::nat) < length ISSUER_ALIASES"
    by (simp_all add: ISSUER_ALIASES_def)
  have h1: "\<exists>p s. py_lower ''IBM Skills Network on AWS'' = p @ fst (ISSUER_ALIASES ! 1) @ s"
    unfolding a1 substring_in_iff[symmetric] by code_simp
  have "\<not> substring_in (fst (ISSUER_ALIASES ! 0)) (py_lower ''IBM Skills Network on AWS'')"
    unfolding a0 by code_simp
  then have h0: "\<forall>j<1. \<not> (\<exists>p s. py_lower ''IBM Skills Network on AWS'' = p @ fst (ISSUER_ALIASES ! j) @ s)"
    by (simp add: substring_in_iff)
  have db: "map_of ISSUER_DB ''ibm'' = Some 70"
    by code_simp
  show ?thesis
    using alias_precedence[OF l h1 h0, of "\<lambda>query choices cutoff. Some (''aws'', 100, 3)" ISSUER_DB]
      l h1
    unfolding a1 by (simp add: db)
qed

section \<open>The matcher and the meaning of expressions\<close>

lemma accepts_seq_iff:
  "accepts ic (RSeq r1 r2) b w t \<longleftrightarrow>
     (\<exists>w1 w2. w = w1 @ w2 \<and> accepts ic r1 b w1 (w2 @ t) \<and> accepts ic r2 (rev w1 @ b) w2 t)"
proof
  assume "accepts ic (RSeq r1 r2) b w t"
  then obtain i where "accepts ic r1 b (take i w) (drop i w @ t)"
    "accepts ic r2 (rev (take i w) @ b) (drop i w) t"
    unfolding accepts.simps list_ex_iff by blast
  moreover have "w = take i w @ drop i w" by simp
  ultimately show "\<exists>w1 w2. w = w1 @ w2 \<and> accepts ic r1 b w1 (w2 @ t) \<and> accepts ic r2 (rev w1 @ b) w2 t"
    by blast
next
  assume "\<exists>w1 w2. w = w1 @ w2 \<and> accepts ic r1 b w1 (w2 @ t) \<and> accepts ic r2 (rev w1 @ b) w2 t"
  then obtain w1 w2 where w: "w = w1 @ w2" and a: "accepts ic r1 b w1 (w2 @ t)"
    "accepts ic r2 (rev w1 @ b) w2 t" by blast
  have "length w1 \<in> set [0..<Suc (length w)]" using w by simp
  moreover have "take (length w1) w = w1" "drop (length w1) w = w2" using w by simp_all
  ultimately show "accepts ic (RSeq r1 r2) b w t"
    using a unfolding accepts.simps list_ex_iff by (intro bexI[of _ "length w1"]) simp_all
qed

lemma rep_atom_set:
  assumes "case hi of None \<Rightarrow> True | Some h \<Rightarrow> n \<le> h"
  shows "set (rep_atom ic a lo hi n (b, t)) =
     {(rev w @ b, s) | w s. t = w @ s \<and> list_all (atom_matches ic a) w \<and> lo \<le> n + length w
        \<and> (case hi of None \<Rightarrow> True | Some h \<Rightarrow> n + length w \<le> h)}"
  using assms
proof (induction t arbitrary: n b)
  case Nil
  then show ?case by (auto split: option.splits)
next
  case (Cons c cs)
  let ?ok = "atom_matches ic a c \<and> (case hi of None \<Rightarrow> True | Some h \<Rightarrow> n < h)"
  let ?R = "\<lambda>n b t. {(rev w @ b, s) | w s. t = w @ s \<and> list_all (atom_matches ic a) w \<and> lo \<le> n + length w
        \<and> (case hi of None \<Rightarrow> True | Some h \<Rightarrow> n + length w \<le> h)}"
  have split: "?R n b (c # cs) = (if lo \<le> n then {(b, c # cs)} else {}) \<union> (if ?ok then ?R (Suc n) (c # b) cs else {})"
  proof (intro set_eqI iffI)
    fix x assume "x \<in> ?R n b (c # cs)"
    then obtain w s where x: "x = (rev w @ b, s)" and t: "c # cs = w @ s"
      and m: "list_all (atom_matches ic a) w" and l: "lo \<le> n + length w"
      and h: "case hi of None \<Rightarrow> True | Some h \<Rightarrow> n + length w \<le> h" by blast
    show "x \<in> (if lo \<le> n then {(b, c # cs)} else {}) \<union> (if ?ok then ?R (Suc n) (c # b) cs else {})"
    proof (cases w)
      case Nil
      with x t l show ?thesis by simp
    next
      case (Cons d w')
      with t have d: "d = c" and cs: "cs = w' @ s" by simp_all
      from m Cons d have ok1: "atom_matches ic a c" and m': "list_all (atom_matches ic a) w'" by simp_all
      from h Cons have ok2: "case hi of None \<Rightarrow> True | Some h \<Rightarrow> n < h"
        and h': "case hi of None \<Rightarrow> True | Some h \<Rightarrow> Suc n + length w' \<le> h"
        by (auto split: option.splits)
      from l Cons have l': "lo \<le> Suc n + length w'" by simp
      have "x = (rev w' @ (c # b), s)" using x Cons d by simp
      with cs m' l' h' have "x \<in> ?R (Suc n) (c # b) cs" by blast
      with ok1 ok2 show ?thesis by simp
    qed
  next
    fix x assume x: "x \<in> (if lo \<le> n then {(b, c # cs)} else {}) \<union> (if ?ok then ?R (Suc n) (c # b) cs else {})"
    then consider "lo \<le> n" "x = (b, c # cs)" | "?ok" "x \<in> ?R (Suc n) (c # b) cs"
      by (auto split: if_splits)
    then show "x \<in> ?R n b (c # cs)"
    proof cases
      case 1
      have "x = (rev [] @ b, c # cs)" "c # cs = [] @ (c # cs)" using 1 by simp_all
      moreover have "case hi of None \<Rightarrow> True | Some h \<Rightarrow> n + length ([]::string) \<le> h"
        using Cons.prems by (simp split: option.splits)
      ultimately show ?thesis using 1(1) by (intro CollectI exI[of _ "[]"] exI[of _ "c # cs"]) simp
    next
      case 2
      then obtain w s where x: "x = (rev w @ (c # b), s)" and t: "cs = w @ s"
        and m: "list_all (atom_matches ic a) w" and l: "lo \<le> Suc n + length w"
        and h: "case hi of None \<Rightarrow> True | Some h \<Rightarrow> Suc n + length w \<le> h" by blast
      show ?thesis
        using x t m l h 2(1)
        by (intro CollectI exI[of _ "c # w"] exI[of _ s]) (simp split: option.splits)
    qed
  qed
  have IH: "?ok \<Longrightarrow> set (rep_atom ic a lo hi (Suc n) (c # b, cs)) = ?R (Suc n) (c # b) cs"
    by (intro Cons.IH) (auto split: option.splits)
  show ?case
    unfolding split using IH by auto
qed

lemma between_append: "between (b, w @ a) (b', a) = w"
  by (simp add: between_def)

lemma matches_sound:
  "y \<in> set (matches ic r ((b, t), caps)) \<Longrightarrow>
   \<exists>w a. t = w @ a \<and> fst y = (rev w @ b, a) \<and> accepts ic r b w a"
proof (induction r arbitrary: b t caps y)
  case (RAtom a)
  then show ?case by (auto split: list.splits if_splits)
next
  case RWordB
  then show ?case by (auto split: if_splits)
next
  case REps
  then show ?case by auto
next
  case (RSeq r1 r2)
  from RSeq.prems obtain y1 where y1: "y1 \<in> set (matches ic r1 ((b, t), caps))"
    and y: "y \<in> set (matches ic r2 y1)" by auto
  obtain b1 t1 c1 where e: "y1 = ((b1, t1), c1)" by (cases y1) auto
  from RSeq.IH(1)[OF y1] e obtain w1 where 1: "t = w1 @ t1" "b1 = rev w1 @ b" "accepts ic r1 b w1 t1"
    by auto
  from y e have "y \<in> set (matches ic r2 ((b1, t1), c1))" by simp
  from RSeq.IH(2)[OF this] obtain w2 a where
    2: "t1 = w2 @ a" "fst y = (rev w2 @ b1, a)" "accepts ic r2 b1 w2 a" by auto
  have "t = (w1 @ w2) @ a" "fst y = (rev (w1 @ w2) @ b, a)" using 1 2 by simp_all
  moreover have "accepts ic (RSeq r1 r2) b (w1 @ w2) a"
    unfolding accepts_seq_iff using 1 2 by blast
  ultimately show ?case by blast
next
  case (RAlt r1 r2)
  from RAlt.prems consider "y \<in> set (matches ic r1 ((b, t), caps))"
    | "y \<in> set (matches ic r2 ((b, t), caps))" by auto
  then show ?case
  proof cases
    case 1
    from RAlt.IH(1)[OF 1] show ?thesis by auto
  next
    case 2
    from RAlt.IH(2)[OF 2] show ?thesis by auto
  qed
next
  case (ROpt r)
  from ROpt.prems consider "y \<in> set (matches ic r ((b, t), caps))" | "y = ((b, t), caps)" by auto
  then show ?case
  proof cases
    case 1
    from ROpt.IH[OF 1] show ?thesis by auto
  next
    case 2
    then show ?thesis by auto
  qed
next
  case (RRep a lo hi)
  have h: "case hi of None \<Rightarrow> True | Some h \<Rightarrow> (0::nat) \<le> h" by (simp split: option.splits)
  from RRep.prems have "fst y \<in> set (rep_atom ic a lo hi 0 (b, t))" by auto
  then show ?case
    unfolding rep_atom_set[OF h] by (auto split: option.splits)
next
  case (RGroup g r)
  from RGroup.prems obtain y' where "y' \<in> set (matches ic r ((b, t), caps))" "fst y = fst y'" by auto
  with RGroup.IH[of y' b t caps] show ?case by auto
qed

lemma matches_complete:
  "accepts ic r b w a \<Longrightarrow> \<exists>caps'. ((rev w @ b, a), caps') \<in> set (matches ic r ((b, w @ a), caps))"
proof (induction r arbitrary: b w a caps)
  case (RAtom x)
  then show ?case by (auto split: list.splits)
next
  case RWordB
  then show ?case by auto
next
  case REps
  then show ?case by auto
next
  case (RSeq r1 r2)
  from RSeq.prems obtain w1 w2 where w: "w = w1 @ w2" and a1: "accepts ic r1 b w1 (w2 @ a)"
    and a2: "accepts ic r2 (rev w1 @ b) w2 a" unfolding accepts_seq_iff by blast
  from RSeq.IH(1)[OF a1, of caps] obtain c1 where
    1: "((rev w1 @ b, w2 @ a), c1) \<in> set (matches ic r1 ((b, w1 @ w2 @ a), caps))" by blast
  from RSeq.IH(2)[OF a2, of c1] obtain c2 where
    2: "((rev w2 @ rev w1 @ b, a), c2) \<in> set (matches ic r2 ((rev w1 @ b, w2 @ a), c1))" by blast
  from 1 2 have "((rev w @ b, a), c2) \<in> set (matches ic (RSeq r1 r2) ((b, w @ a), caps))"
    using w by auto
  then show ?case by blast
next
  case (RAlt r1 r2)
  then show ?case by (fastforce simp: Un_iff)
next
  case (ROpt r)
  then show ?case by fastforce
next
  case (RRep x lo hi)
  have h: "case hi of None \<Rightarrow> True | Some h \<Rightarrow> (0::nat) \<le> h" by (simp split: option.splits)
  from RRep.prems have "(rev w @ b, a) \<in> set (rep_atom ic x lo hi 0 (b, w @ a))"
    unfolding rep_atom_set[OF h] by (auto split: option.splits)
  then show ?case by (auto simp: image_iff)
next
  case (RGroup g r)
  from RGroup.IH[of b w a caps] RGroup.prems obtain c where
    "((rev w @ b, a), c) \<in> set (matches ic r ((b, w @ a), caps))" by auto
  then have "((rev w @ b, a), (g, between (b, w @ a) (rev w @ b, a)) # c)
               \<in> set (matches ic (RGroup g r) ((b, w @ a), caps))"
    by (force simp: image_iff)
  then show ?case by blast
qed

lemma matches_group_free:
  "group_free r \<Longrightarrow> y \<in> set (matches ic r ((b, t), caps)) \<Longrightarrow> snd y = caps"
proof (induction r arbitrary: b t caps y)
  case (RSeq r1 r2)
  from RSeq.prems obtain y1 where y1: "y1 \<in> set (matches ic r1 ((b, t), caps))"
    and y: "y \<in> set (matches ic r2 y1)" by auto
  obtain b1 t1 c1 where e: "y1 = ((b1, t1), c1)" by (cases y1) auto
  from RSeq.IH(1)[OF _ y1] RSeq.prems(1) e have "c1 = caps" by auto
  moreover from RSeq.IH(2)[of y b1 t1 c1] y e RSeq.prems(1) have "snd y = c1" by auto
  ultimately show ?case by simp
qed (auto split: list.splits if_splits)

lemma matches_group:
  assumes "y \<in> set (matches ic (RGroup g r) ((b, t), caps))"
  shows "\<exists>w a c. t = w @ a \<and> y = ((rev w @ b, a), (g, w) # c) \<and> accepts ic r b w a
           \<and> (group_free r \<longrightarrow> c = caps)"
proof -
  from assms obtain y' where y': "y' \<in> set (matches ic r ((b, t), caps))"
    and y: "y = (fst y', (g, between (b, t) (fst y')) # snd y')" by auto
  from matches_sound[OF y'] obtain w a where 1: "t = w @ a" "fst y' = (rev w @ b, a)"
    "accepts ic r b w a" by blast
  have "between (b, t) (fst y') = w" using 1 by (simp add: between_append)
  with y 1 have "y = ((rev w @ b, a), (g, w) # snd y')" by simp
  moreover have "group_free r \<longrightarrow> snd y' = caps" using matches_group_free[OF _ y'] by blast
  ultimately show ?thesis using 1 by blast
qed

lemma matches_empty_iff:
  "matches ic r ((b, t), caps) = [] \<longleftrightarrow> (\<forall>w a. t = w @ a \<longrightarrow> \<not> accepts ic r b w a)"
proof
  assume e: "matches ic r ((b, t), caps) = []"
  show "\<forall>w a. t = w @ a \<longrightarrow> \<not> accepts ic r b w a"
  proof (intro allI impI notI)
    fix w a assume "t = w @ a" "accepts ic r b w a"
    with matches_complete[of ic r b w a caps] e show False by auto
  qed
next
  assume n: "\<forall>w a. t = w @ a \<longrightarrow> \<not> accepts ic r b w a"
  show "matches ic r ((b, t), caps) = []"
  proof (rule ccontr)
    assume "matches ic r ((b, t), caps) \<noteq> []"
    then obtain y where "y \<in> set (matches ic r ((b, t), caps))" by (cases "matches ic r ((b, t), caps)") auto
    from matches_sound[OF this] n show False by blast
  qed
qed

lemma search_from_None:
  "search_from ic r b t = None \<longleftrightarrow> (\<forall>p s. t = p @ s \<longrightarrow> matches ic r ((rev p @ b, s), []) = [])"
proof (induction t arbitrary: b)
  case Nil
  then show ?case by (auto split: list.splits)
next
  case (Cons c cs)
  show ?case
  proof (cases "matches ic r ((b, c # cs), [])")
    case Nil
    have "(\<forall>p s. c # cs = p @ s \<longrightarrow> matches ic r ((rev p @ b, s), []) = []) \<longleftrightarrow>
          (\<forall>p s. cs = p @ s \<longrightarrow> matches ic r ((rev p @ c # b, s), []) = [])"
    proof
      assume h: "\<forall>p s. c # cs = p @ s \<longrightarrow> matches ic r ((rev p @ b, s), []) = []"
      show "\<forall>p s. cs = p @ s \<longrightarrow> matches ic r ((rev p @ c # b, s), []) = []"
      proof (intro allI impI)
        fix p s assume "cs = p @ s"
        then have "c # cs = (c # p) @ s" by simp
        with h have "matches ic r ((rev (c # p) @ b, s), []) = []" by blast
        then show "matches ic r ((rev p @ c # b, s), []) = []" by simp
      qed
    next
      assume h: "\<forall>p s. cs = p @ s \<longrightarrow> matches ic r ((rev p @ c # b, s), []) = []"
      show "\<forall>p s. c # cs = p @ s \<longrightarrow> matches ic r ((rev p @ b, s), []) = []"
      proof (intro allI impI)
        fix p s assume e: "c # cs = p @ s"
        show "matches ic r ((rev p @ b, s), []) = []"
        proof (cases p)
          case Nil
          with e \<open>matches ic r ((b, c # cs), []) = []\<close> show ?thesis by simp
        next
          case (Cons d p')
          with e have "cs = p' @ s" "d = c" by simp_all
          with h Cons show ?thesis by simp
        qed
      qed
    qed
    with Nil Cons.IH[of "c # b"] show ?thesis by simp
  next
    case (Cons y ys)
    have "\<not> (\<forall>p s. c # cs = p @ s \<longrightarrow> matches ic r ((rev p @ b, s), []) = [])"
    proof
      assume "\<forall>p s. c # cs = p @ s \<longrightarrow> matches ic r ((rev p @ b, s), []) = []"
      then have "c # cs = [] @ (c # cs) \<longrightarrow> matches ic r ((rev [] @ b, c # cs), []) = []" by blast
      with Cons show False by simp
    qed
    with Cons show ?thesis by simp
  qed
qed

lemma search_from_Some:
  "search_from ic r b t = Some m \<Longrightarrow>
   \<exists>p s y ys. t = p @ s \<and> matches ic r ((rev p @ b, s), []) = y # ys
     \<and> m = \<lparr>group0 = between (rev p @ b, s) (fst y), groups = snd y\<rparr>
     \<and> (\<forall>p' s'. t = p' @ s' \<and> length p' < length p \<longrightarrow> matches ic r ((rev p' @ b, s'), []) = [])"
proof (induction t arbitrary: b)
  case Nil
  then obtain y ys where "matches ic r ((b, []), []) = y # ys"
    "m = \<lparr>group0 = between (b, []) (fst y), groups = snd y\<rparr>"
    by (auto split: list.splits)
  then show ?case by (intro exI[of _ "[]"]) auto
next
  case (Cons c cs)
  show ?case
  proof (cases "matches ic r ((b, c # cs), [])")
    case Nil
    with Cons.prems have "search_from ic r (c # b) cs = Some m" by simp
    from Cons.IH[OF this] obtain p s y ys where
      1: "cs = p @ s" "matches ic r ((rev p @ c # b, s), []) = y # ys"
      "m = \<lparr>group0 = between (rev p @ c # b, s) (fst y), groups = snd y\<rparr>"
      and 2: "\<forall>p' s'. cs = p' @ s' \<and> length p' < length p \<longrightarrow> matches ic r ((rev p' @ c # b, s'), []) = []"
      by blast
    have 3: "\<forall>p' s'. c # cs = p' @ s' \<and> length p' < length (c # p) \<longrightarrow> matches ic r ((rev p' @ b, s'), []) = []"
    proof (intro allI impI)
      fix p' s' assume a: "c # cs = p' @ s' \<and> length p' < length (c # p)"
      show "matches ic r ((rev p' @ b, s'), []) = []"
      proof (cases p')
        case Nil
        with a \<open>matches ic r ((b, c # cs), []) = []\<close> show ?thesis by simp
      next
        case (Cons d q)
        with a have "cs = q @ s'" "d = c" "length q < length p" by simp_all
        with 2 Cons show ?thesis by simp
      qed
    qed
    show ?thesis
      using 1 3 by (intro exI[of _ "c # p"] exI[of _ s] exI[of _ y] exI[of _ ys]) simp
  next
    case (Cons y ys)
    with Cons.prems have "m = \<lparr>group0 = between (b, c # cs) (fst y), groups = snd y\<rparr>" by simp
    with Cons show ?thesis
      by (intro exI[of _ "[]"] exI[of _ "c # cs"] exI[of _ y] exI[of _ ys]) simp
  qed
qed

section \<open>Properties of the skill tagger\<close>

lemma search_None_iff:
  "search ic r text = None \<longleftrightarrow> (\<forall>p w s. text = p @ w @ s \<longrightarrow> \<not> accepts ic r (rev p) w s)"
proof -
  have "search ic r text = None \<longleftrightarrow>
        (\<forall>p z. text = p @ z \<longrightarrow> (\<forall>w s. z = w @ s \<longrightarrow> \<not> accepts ic r (rev p) w s))"
    unfolding search_def search_from_None matches_empty_iff by simp
  then show ?thesis by blast
qed

lemma literal_Nil: "literal [] = REps"
  by (simp add: literal_def seq_def)

lemma literal_Cons: "literal (c # s) = RSeq (RAtom (Lit c)) (literal s)"
  by (simp add: literal_def seq_def)

lemma accepts_atom: "accepts ic (RAtom a) b w t \<longleftrightarrow> (\<exists>c. w = [c] \<and> atom_matches ic a c)"
  by (auto split: list.splits)

lemma accepts_atom_seq:
  "accepts ic (RSeq (RAtom a) r) b w t \<longleftrightarrow>
     (\<exists>c w'. w = c # w' \<and> atom_matches ic a c \<and> accepts ic r (c # b) w' t)"
proof
  assume "accepts ic (RSeq (RAtom a) r) b w t"
  then obtain w1 w2 c where "w = w1 @ w2" "w1 = [c]" "atom_matches ic a c"
    "accepts ic r (rev w1 @ b) w2 t"
    unfolding accepts_seq_iff accepts_atom by blast
  then show "\<exists>c w'. w = c # w' \<and> atom_matches ic a c \<and> accepts ic r (c # b) w' t"
    by auto
next
  assume "\<exists>c w'. w = c # w' \<and> atom_matches ic a c \<and> accepts ic r (c # b) w' t"
  then obtain c w' where 1: "w = c # w'" "atom_matches ic a c" "accepts ic r (c # b) w' t"
    by blast
  then have "w = [c] @ w'" "accepts ic (RAtom a) b [c] (w' @ t)" "accepts ic r (rev [c] @ b) w' t"
    by simp_all
  then show "accepts ic (RSeq (RAtom a) r) b w t"
    unfolding accepts_seq_iff by blast
qed

lemma accepts_literal:
  "accepts ic (literal l) b w t \<longleftrightarrow> (if ic then py_lower w = py_lower l else w = l)"
proof (induction l arbitrary: b w)
  case Nil
  show ?case by (auto simp: literal_Nil py_lower_def)
next
  case (Cons c l)
  show ?case
    unfolding literal_Cons accepts_atom_seq Cons.IH
    by (cases w) (auto simp: py_lower_def)
qed

lemma seq_Nil: "seq [] = REps"
  by (simp add: seq_def)

lemma seq_Cons: "seq (r # rs) = RSeq r (seq rs)"
  by (simp add: seq_def)

lemma accepts_skill_regex:
  "accepts False (skill_regex skill) b w t \<longleftrightarrow>
     w = py_lower skill \<and> word_boundary (b, w @ t) \<and> word_boundary (rev w @ b, t)"
  unfolding skill_regex_def seq_Cons seq_Nil accepts_seq_iff accepts_literal
  by (auto simp del: accepts.simps(4) simp add: accepts.simps(2,3))

text \<open>
  C8. The skill tagger returns exactly the vocabulary entries, spelled as in the
  vocabulary, whose lowercased form occurs in the lowercased text with a word boundary
  \<open>\b\<close> at both ends of the occurrence; the result is a set, so no entry is repeated.
  Entry \<open>R\<close> is not found in \<open>AWS\<close> or in \<open>Director\<close>; entry \<open>Python\<close> is found in
  \<open>Python programming\<close>.
\<close>

theorem extract_skills_whole_words:
  "extract_skills SKILL_TAGS text =
     {skill \<in> set SKILL_TAGS.
        \<exists>p s. py_lower text = p @ py_lower skill @ s
          \<and> word_boundary (rev p, py_lower skill @ s)
          \<and> word_boundary (rev (py_lower skill) @ rev p, s)}"
proof -
  have "search False (skill_regex skill) (py_lower text) \<noteq> None \<longleftrightarrow>
        (\<exists>p s. py_lower text = p @ py_lower skill @ s
          \<and> word_boundary (rev p, py_lower skill @ s)
          \<and> word_boundary (rev (py_lower skill) @ rev p, s))" for skill
    unfolding search_None_iff accepts_skill_regex by blast
  then show ?thesis
    by (auto simp: extract_skills_def Let_def)
qed

theorem extract_skills_whole_words_witness:
  "extract_skills [''R'', ''Python''] ''AWS'' = {}
   \<and> extract_skills [''R'', ''Python''] ''Director'' = {}
   \<and> extract_skills [''R'', ''Python'', ''Python''] ''Python programming'' = {''Python''}
   \<and> ''Python'' \<in> {skill \<in> set [''R'', ''Python'', ''Python''].
        \<exists>p s. py_lower ''Python programming'' = p @ py_lower skill @ s
          \<and> word_boundary (rev p, py_lower skill @ s)
          \<and> word_boundary (rev (py_lower skill) @ rev p, s)}"
proof -
  have e: "extract_skills [''R'', ''Python''] ''AWS'' = {}"
    "extract_skills [''R'', ''Python''] ''Director'' = {}"
    "extract_skills [''R'', ''Python'', ''Python''] ''Python programming'' = {''Python''}"
    by code_simp+
  have "''Python'' \<in> extract_skills [''R'', ''Python'', ''Python''] ''Python programming''"
    unfolding e by simp
  then have "''Python'' \<in> {skill \<in> set [''R'', ''Python'', ''Python''].
        \<exists>p s. py_lower ''Python programming'' = p @ py_lower skill @ s
          \<and> word_boundary (rev p, py_lower skill @ s)
          \<and> word_boundary (rev (py_lower skill) @ rev p, s)}"
    unfolding extract_skills_whole_words[of "[''R'', ''Python'', ''Python'']" "''Python programming''"] .
  with e show ?thesis by blast
qed

section \<open>Properties of the time-commitment parser\<close>

lemma code_lower_char:
  "code (lower_char c) =
     (if (65 \<le> code c \<and> code c \<le> 90) \<or> (192 \<le> code c \<and> code c \<le> 222 \<and> code c \<noteq> 215)
      then code c + 32 else code c)"
  by (auto simp: lower_char_def Let_def code_def)

lemma code_eq_iff: "code c = code d \<longleftrightarrow> c = d"
  by (simp add: code_def)

lemma lower_char_dot: "lower_char c = CHR ''.'' \<longleftrightarrow> c = CHR ''.''"
proof -
  have "lower_char c = CHR ''.'' \<longleftrightarrow> code (lower_char c) = code CHR ''.''"
    by (simp only: code_eq_iff)
  also have "\<dots> \<longleftrightarrow> code c = code CHR ''.''"
    unfolding code_lower_char by (auto simp: code_def)
  finally show ?thesis by (simp only: code_eq_iff)
qed

lemma not_digit_dot: "\<not> is_digit CHR ''.''"
  by (simp add: is_digit_def code_def)

lemma space_not_digit: "is_space c \<Longrightarrow> \<not> is_digit c"
  by (auto simp: is_space_def is_digit_def Let_def)

lemma digit_not_space: "is_digit c \<Longrightarrow> \<not> is_space c"
  by (auto simp: is_space_def is_digit_def Let_def)

lemma atom_digit: "atom_matches ic (Class False [Digits]) = is_digit"
  by (simp add: fun_eq_iff)

lemma atom_space: "atom_matches ic (Class False [Spaces]) = is_space"
  by (simp add: fun_eq_iff)

lemma accepts_rep_star: "accepts ic (RRep a 0 None) b w t \<longleftrightarrow> list_all (atom_matches ic a) w"
  by simp

lemma accepts_rep_plus:
  "accepts ic (RRep a 1 None) b w t \<longleftrightarrow> w \<noteq> [] \<and> list_all (atom_matches ic a) w"
  by (cases w) auto

lemma accepts_opt_dot:
  "accepts True (ROpt (RAtom (Lit CHR ''.''))) b w t \<longleftrightarrow> w = [] \<or> w = ''.''"
proof -
  have l: "lower_char CHR ''.'' = CHR ''.''" by (simp add: lower_char_dot)
  show ?thesis
    unfolding accepts.simps(6) accepts_atom atom_matches.simps l
    by (auto simp: lower_char_dot)
qed

lemma accepts_number:
  "accepts True (time_number) b n t \<longleftrightarrow> decimal_number n"
proof
  assume "accepts True (time_number) b n t"
  then obtain d1 x d2 where n: "n = d1 @ x @ d2" and d1: "d1 \<noteq> []" "list_all is_digit d1"
    and x: "x = [] \<or> x = ''.''" and d2: "list_all is_digit d2"
    unfolding time_number_def seq_Cons seq_Nil accepts_seq_iff accepts_rep_plus accepts_rep_star accepts_opt_dot
      atom_digit accepts.simps(3)
    by auto
  from x show "decimal_number n"
  proof
    assume "x = []"
    with n d1 d2 have "n = d1 @ d2" "d1 @ d2 \<noteq> []" "list_all is_digit (d1 @ d2)" by simp_all
    then show ?thesis unfolding decimal_number_def by (intro exI[of _ "d1 @ d2"] exI[of _ "[]"]) simp
  next
    assume "x = ''.''"
    with n d1 d2 show ?thesis unfolding decimal_number_def
      by (intro exI[of _ d1] exI[of _ d2]) simp
  qed
next
  assume "decimal_number n"
  then obtain d1 d2 where d1: "d1 \<noteq> []" "list_all is_digit d1" and d2: "list_all is_digit d2"
    and n: "n = d1 \<or> n = d1 @ ''.'' @ d2" unfolding decimal_number_def by blast
  from n have "\<exists>x e. n = d1 @ x @ e @ [] \<and> (x = [] \<or> x = ''.'') \<and> list_all is_digit e"
  proof
    assume "n = d1"
    then show ?thesis by (intro exI[of _ "[]"]) simp
  next
    assume "n = d1 @ ''.'' @ d2"
    with d2 show ?thesis by (intro exI[of _ "''.''"] exI[of _ d2]) simp
  qed
  then obtain x e where "n = d1 @ x @ e @ []" "x = [] \<or> x = ''.''" "list_all is_digit e" by blast
  with d1 show "accepts True (time_number) b n t"
    unfolding time_number_def seq_Cons seq_Nil accepts_seq_iff accepts_rep_plus accepts_rep_star accepts_opt_dot
      atom_digit accepts.simps(3)
    by blast
qed

lemma accepts_optional_total:
  "accepts True (ROpt (time_total)) b x t
     \<longleftrightarrow> optional_total x"
proof -
  have l: "py_lower ''total'' = ''total''" by code_simp
  have "accepts True (time_total) b x t
        \<longleftrightarrow> (\<exists>tot sp. x = tot @ sp \<and> py_lower tot = ''total'' \<and> list_all is_space sp)"
    unfolding time_total_def seq_Cons seq_Nil accepts_seq_iff accepts_literal accepts_rep_star atom_space
      accepts.simps(3) l
    by auto
  then show ?thesis
    unfolding accepts.simps(6) optional_total_def by blast
qed

lemma lower_units:
  "py_lower ''hours'' = ''hours''" "py_lower ''hrs'' = ''hrs''" "py_lower ''h'' = ''h''"
  "py_lower ''weeks'' = ''weeks''" "py_lower ''week'' = ''week''"
  "py_lower ''months'' = ''months''" "py_lower ''month'' = ''month''"
  by code_simp+

lemma accepts_unit:
  "accepts True (time_unit) b u t
     \<longleftrightarrow> py_lower u \<in> fst ` set UNIT_HOURS"
  unfolding time_unit_def alt.simps accepts.simps(5) accepts_literal lower_units UNIT_HOURS_def
  by auto

lemma TIME_REGEX_parts:
  "TIME_REGEX = RSeq (RGroup 1 time_number) (RSeq (RRep (Class False [Spaces]) 0 None)
                  (RSeq (ROpt time_total) (RSeq (RGroup 2 time_unit) REps)))"
  by (simp add: TIME_REGEX_def time_number_def time_total_def time_unit_def seq_def)

lemma group_free_literal: "group_free (literal s)"
  by (induction s) (simp_all add: literal_Nil literal_Cons)

lemma group_free_time: "group_free time_number" "group_free time_total" "group_free time_unit"
  by (simp_all add: time_number_def time_total_def time_unit_def seq_def group_free_literal)

lemma accepts_time_regex:
  "accepts True TIME_REGEX b w t \<longleftrightarrow> (\<exists>num u. duration_phrase num u w)"
proof
  assume "accepts True TIME_REGEX b w t"
  then obtain num w2 sp w4 x w6 u w8 where
    "w = num @ w2" "decimal_number num" "w2 = sp @ w4" "list_all is_space sp"
    "w4 = x @ w6" "optional_total x" "w6 = u @ w8" "py_lower u \<in> fst ` set UNIT_HOURS" "w8 = []"
    unfolding TIME_REGEX_parts accepts_seq_iff accepts.simps(8) accepts_number accepts_rep_star
      atom_space accepts_optional_total accepts_unit accepts.simps(3)
    by blast
  then have "duration_phrase num u w"
    unfolding duration_phrase_def by auto
  then show "\<exists>num u. duration_phrase num u w" by blast
next
  assume "\<exists>num u. duration_phrase num u w"
  then obtain num u sp x where 1: "decimal_number num" "py_lower u \<in> fst ` set UNIT_HOURS"
    "list_all is_space sp" "optional_total x" "w = num @ sp @ x @ u"
    unfolding duration_phrase_def by blast
  have 2: "w = num @ (sp @ x @ u @ [])" "sp @ x @ u @ [] = sp @ (x @ u @ [])"
    "x @ u @ [] = x @ (u @ [])" "u @ [] = u @ []"
    using 1(5) by simp_all
  show "accepts True TIME_REGEX b w t"
    unfolding TIME_REGEX_parts accepts_seq_iff accepts.simps(8) accepts_number accepts_rep_star
      atom_space accepts_optional_total accepts_unit accepts.simps(3)
    using 1(1-4) 2 by blast
qed

lemma matches_seq_elim:
  "y \<in> set (matches ic (RSeq r1 r2) x) \<Longrightarrow> \<exists>y1 \<in> set (matches ic r1 x). y \<in> set (matches ic r2 y1)"
  by simp

lemma matches_group_free_sound:
  assumes "group_free r" "y \<in> set (matches ic r ((b, t), caps))"
  shows "\<exists>w a. t = w @ a \<and> y = ((rev w @ b, a), caps) \<and> accepts ic r b w a"
proof -
  from matches_sound[OF assms(2)] obtain w a where
    "t = w @ a" "fst y = (rev w @ b, a)" "accepts ic r b w a" by blast
  moreover have "snd y = caps" using matches_group_free[OF assms] .
  ultimately show ?thesis by (cases y) auto
qed

lemma time_regex_groups:
  assumes "y \<in> set (matches True TIME_REGEX ((b, t), []))"
  shows "\<exists>num u w a. t = w @ a \<and> fst y = (rev w @ b, a) \<and> snd y = [(2, u), (1, num)]
           \<and> duration_phrase num u w"
proof -
  from assms obtain y1 where
    y1: "y1 \<in> set (matches True (RGroup 1 time_number) ((b, t), []))"
    and r1: "y \<in> set (matches True (RSeq (RRep (Class False [Spaces]) 0 None)
                  (RSeq (ROpt time_total) (RSeq (RGroup 2 time_unit) REps))) y1)"
    unfolding TIME_REGEX_parts using matches_seq_elim by blast
  from matches_group[OF y1] group_free_time(1) obtain num a1 where
    1: "t = num @ a1" "y1 = ((rev num @ b, a1), [(1, num)])" "decimal_number num"
    unfolding accepts_number by blast
  from r1 obtain y2 where
    y2: "y2 \<in> set (matches True (RRep (Class False [Spaces]) 0 None) y1)"
    and r2: "y \<in> set (matches True (RSeq (ROpt time_total) (RSeq (RGroup 2 time_unit) REps)) y2)"
    using matches_seq_elim by blast
  have "group_free (RRep (Class False [Spaces]) 0 None)" by simp
  from matches_group_free_sound[OF this y2[unfolded 1(2)]] obtain sp a2 where
    2: "a1 = sp @ a2" "y2 = ((rev sp @ rev num @ b, a2), [(1, num)])" "list_all is_space sp"
    unfolding accepts_rep_star atom_space by blast
  from r2 obtain y3 where
    y3: "y3 \<in> set (matches True (ROpt time_total) y2)"
    and r3: "y \<in> set (matches True (RSeq (RGroup 2 time_unit) REps) y3)"
    using matches_seq_elim by blast
  have "group_free (ROpt time_total)" using group_free_time(2) by simp
  from matches_group_free_sound[OF this y3[unfolded 2(2)]] obtain x a3 where
    3: "a2 = x @ a3" "y3 = ((rev x @ rev sp @ rev num @ b, a3), [(1, num)])" "optional_total x"
    unfolding accepts_optional_total by blast
  from r3 obtain y4 where y4: "y4 \<in> set (matches True (RGroup 2 time_unit) y3)"
    and r4: "y \<in> set (matches True REps y4)"
    using matches_seq_elim by blast
  from r4 have "y = y4" by simp
  from matches_group[OF y4[unfolded 3(2)]] this obtain u a c where
    4: "a3 = u @ a" "y = ((rev u @ rev x @ rev sp @ rev num @ b, a), (2, u) # c)"
    "py_lower u \<in> fst ` set UNIT_HOURS" "group_free time_unit \<longrightarrow> c = [(1, num)]"
    unfolding accepts_unit by blast
  have "t = (num @ sp @ x @ u) @ a" using 1 2 3 4 by simp
  moreover have "fst y = (rev (num @ sp @ x @ u) @ b, a)" using 4 by simp
  moreover have "snd y = [(2, u), (1, num)]" using 4 group_free_time(3) by simp
  moreover have "duration_phrase num u (num @ sp @ x @ u)"
    unfolding duration_phrase_def using 1(3) 2(3) 3(3) 4(3) by blast
  ultimately show ?thesis by blast
qed

lemma py_float_decimal: "decimal_number n \<Longrightarrow> \<exists>v. py_float n = Inr v"
proof -
  assume "decimal_number n"
  then obtain d1 d2 where d1: "d1 \<noteq> []" "list_all is_digit d1" and d2: "list_all is_digit d2"
    and n: "n = d1 \<or> n = d1 @ ''.'' @ d2" unfolding decimal_number_def by blast
  from n show ?thesis
  proof
    assume e: "n = d1"
    have tw: "takeWhile is_digit d1 = d1" "dropWhile is_digit d1 = []"
      using d1(2) by (simp_all add: list_all_iff takeWhile_eq_all_conv)
    show ?thesis unfolding py_float_def Let_def e tw using d1(1) by simp
  next
    assume e: "n = d1 @ ''.'' @ d2"
    have tw: "takeWhile is_digit n = d1" "dropWhile is_digit n = ''.'' @ d2"
      unfolding e using d1(2) not_digit_dot
      by (simp_all add: list_all_iff takeWhile_append2 dropWhile_append2)
    show ?thesis unfolding py_float_def Let_def tw using d1(1) d2 by simp
  qed
qed

lemma unit_factor:
  assumes "py_lower u \<in> fst ` set UNIT_HOURS"
  shows "\<exists>k. map_of UNIT_HOURS (py_lower u) = Some k \<and>
           (if substring_in ''week'' (py_lower u) then Inr (v * 10)
            else if substring_in ''month'' (py_lower u) then Inr (v * 40)
            else (Inr v :: error + rat)) = Inr (v * k)"
proof -
  from assms consider "py_lower u = ''hours''" | "py_lower u = ''hrs''" | "py_lower u = ''h''"
    | "py_lower u = ''weeks''" | "py_lower u = ''week''" | "py_lower u = ''months''"
    | "py_lower u = ''month''"
    unfolding UNIT_HOURS_def by auto
  then show ?thesis
    by cases (simp_all add: UNIT_HOURS_def)
qed

lemma py_lower_idem: "py_lower (py_lower s) = py_lower s"
proof -
  have "lower_char (lower_char c) = lower_char c" for c
    unfolding code_eq_iff[symmetric] code_lower_char by auto
  then show ?thesis by (simp add: py_lower_def)
qed

lemma time_groups_value:
  assumes "duration_phrase num u w" "groups m = [(2, u), (1, num)]"
  shows "\<exists>v k. py_float num = Inr v \<and> map_of UNIT_HOURS (py_lower u) = Some k \<and>
     (case group m 1 of
             None \<Rightarrow> Inl TypeError
           | Some g1 \<Rightarrow>
               (case py_float g1 of
                  Inl e \<Rightarrow> Inl e
                | Inr val \<Rightarrow>
                    (case group m 2 of
                       None \<Rightarrow> Inl AttributeError
                     | Some g2 \<Rightarrow>
                         (let u = py_lower g2
                          in if substring_in ''week'' u then Inr (val * 10)
                             else if substring_in ''month'' u then Inr (val * 40)
                             else Inr val)))) = Inr (v * k)"
proof -
  from assms(1) have d: "decimal_number num" and un: "py_lower u \<in> fst ` set UNIT_HOURS"
    unfolding duration_phrase_def by blast+
  from py_float_decimal[OF d] obtain v where v: "py_float num = Inr v" by blast
  from unit_factor[OF un, of v] obtain k where k: "map_of UNIT_HOURS (py_lower u) = Some k"
    "(if substring_in ''week'' (py_lower u) then Inr (v * 10)
            else if substring_in ''month'' (py_lower u) then Inr (v * 40)
            else (Inr v :: error + rat)) = Inr (v * k)" by blast
  have g: "group m 1 = Some num" "group m 2 = Some u"
    using assms(2) by (simp_all add: group_def)
  show ?thesis
    unfolding g using v k by (intro exI[of _ v] exI[of _ k]) (simp add: Let_def)
qed

text \<open>Characters that lowercase to an ASCII letter are ASCII letters.\<close>

lemma lower_letter:
  assumes "97 \<le> code (lower_char c)" "code (lower_char c) \<le> 122"
  shows "\<not> is_digit c \<and> \<not> is_space c \<and> c \<noteq> CHR ''.''"
proof -
  from assms have "(65 \<le> code c \<and> code c \<le> 90) \<or> (97 \<le> code c \<and> code c \<le> 122)"
    unfolding code_lower_char by (auto split: if_splits)
  then show ?thesis
    by (auto simp: is_digit_def is_space_def Let_def code_def)
qed

lemma space_not_dot: "is_space c \<Longrightarrow> c \<noteq> CHR ''.''"
  by (auto simp: is_space_def Let_def code_def)

lemma hd_py_lower: "s \<noteq> [] \<Longrightarrow> hd (py_lower s) = lower_char (hd s)"
  by (cases s) (simp_all add: py_lower_def)

lemma py_lower_Nil_iff: "py_lower s = [] \<longleftrightarrow> s = []"
  by (simp add: py_lower_def)

lemma length_py_lower: "length (py_lower s) = length s"
  by (simp add: py_lower_def)

lemma unit_first_letter:
  assumes "py_lower u \<in> fst ` set UNIT_HOURS"
  shows "u \<noteq> [] \<and> map_of UNIT_HOURS (py_lower u) = Some (first_letter_hours (hd u))
         \<and> 97 \<le> code (lower_char (hd u)) \<and> code (lower_char (hd u)) \<le> 122
         \<and> lower_char (hd u) \<noteq> CHR ''t''"
proof -
  from assms have ne: "u \<noteq> []" by (auto simp: UNIT_HOURS_def py_lower_def)
  from assms consider "py_lower u = ''hours''" | "py_lower u = ''hrs''" | "py_lower u = ''h''"
    | "py_lower u = ''weeks''" | "py_lower u = ''week''" | "py_lower u = ''months''"
    | "py_lower u = ''month''"
    unfolding UNIT_HOURS_def by auto
  then have "map_of UNIT_HOURS (py_lower u) = Some (first_letter_hours (hd u))
         \<and> 97 \<le> code (lower_char (hd u)) \<and> code (lower_char (hd u)) \<le> 122
         \<and> lower_char (hd u) \<noteq> CHR ''t''"
    unfolding hd_py_lower[OF ne, symmetric] first_letter_hours_def
    by cases (simp_all add: UNIT_HOURS_def code_def)
  with ne show ?thesis by blast
qed

lemma total_first_letter:
  assumes "py_lower tot = ''total''"
  shows "tot \<noteq> [] \<and> lower_char (hd tot) = CHR ''t'' \<and> length tot = 5"
proof -
  from assms have ne: "tot \<noteq> []" by (auto simp: py_lower_def)
  have "length (py_lower tot) = 5" unfolding assms by simp
  then have "length tot = 5" by (simp add: length_py_lower)
  moreover have "hd (py_lower tot) = CHR ''t''" unfolding assms by simp
  ultimately show ?thesis using ne hd_py_lower[OF ne] by simp
qed

lemma unit_after:
  assumes "py_lower u \<in> fst ` set UNIT_HOURS"
  shows "after_number (u @ s)" "after_blanks (u @ s)"
  using unit_first_letter[OF assms] lower_letter[of "hd u"]
  by (auto simp: after_number_def after_blanks_def)

lemma total_after:
  assumes "py_lower tot = ''total''"
  shows "after_number (tot @ s)" "after_blanks (tot @ s)"
proof -
  from total_first_letter[OF assms] have "tot \<noteq> []" "lower_char (hd tot) = CHR ''t''" by simp_all
  moreover then have "97 \<le> code (lower_char (hd tot))" "code (lower_char (hd tot)) \<le> 122"
    by (simp_all add: code_def)
  ultimately show "after_number (tot @ s)" "after_blanks (tot @ s)"
    using lower_letter[of "hd tot"] by (auto simp: after_number_def after_blanks_def)
qed

lemma optional_unit_after:
  assumes "optional_total x" "py_lower u \<in> fst ` set UNIT_HOURS"
  shows "after_number (x @ u @ s)" "after_blanks (x @ u @ s)"
proof -
  from assms(1) consider "x = []" | tot sp where "x = tot @ sp" "py_lower tot = ''total''"
    unfolding optional_total_def by blast
  then have "after_number (x @ u @ s) \<and> after_blanks (x @ u @ s)"
  proof cases
    case 1
    then show ?thesis using unit_after[OF assms(2), of s] by simp
  next
    case 2
    then show ?thesis using total_after[OF 2(2), of "sp @ u @ s"] by simp
  qed
  then show "after_number (x @ u @ s)" "after_blanks (x @ u @ s)" by blast+
qed

lemma blanks_after:
  assumes "list_all is_space sp" "after_number r"
  shows "after_number (sp @ r)"
proof (cases sp)
  case Nil
  with assms show ?thesis by simp
next
  case (Cons c cs)
  with assms(1) have "is_space c" by simp
  then show ?thesis
    using Cons space_not_digit[of c] space_not_dot[of c] by (simp add: after_number_def)
qed

lemma blanks_unique:
  assumes "list_all is_space sp" "list_all is_space sp'" "after_blanks r" "after_blanks r'"
    "sp @ r = sp' @ r'"
  shows "sp = sp' \<and> r = r'"
proof -
  have "takeWhile is_space (sp @ r) = sp" "dropWhile is_space (sp @ r) = r"
    using assms(1,3) by (cases r; simp add: list_all_iff after_blanks_def takeWhile_append2 dropWhile_append2)+
  moreover have "takeWhile is_space (sp' @ r') = sp'" "dropWhile is_space (sp' @ r') = r'"
    using assms(2,4) by (cases r'; simp add: list_all_iff after_blanks_def takeWhile_append2 dropWhile_append2)+
  ultimately show ?thesis using assms(5) by simp
qed

lemma digits_unique:
  assumes "list_all is_digit d" "list_all is_digit d'" "r = [] \<or> \<not> is_digit (hd r)"
    "r' = [] \<or> \<not> is_digit (hd r')" "d @ r = d' @ r'"
  shows "d = d' \<and> r = r'"
proof -
  have "takeWhile is_digit (d @ r) = d" "dropWhile is_digit (d @ r) = r"
    using assms(1,3) by (cases r; simp add: list_all_iff takeWhile_append2 dropWhile_append2)+
  moreover have "takeWhile is_digit (d' @ r') = d'" "dropWhile is_digit (d' @ r') = r'"
    using assms(2,4) by (cases r'; simp add: list_all_iff takeWhile_append2 dropWhile_append2)+
  ultimately show ?thesis using assms(5) by simp
qed

lemma number_unique:
  assumes "decimal_number n" "decimal_number n'" "after_number r" "after_number r'"
    "n @ r = n' @ r'"
  shows "n = n' \<and> r = r'"
proof -
  from assms(1) obtain d1 d2 where d: "d1 \<noteq> []" "list_all is_digit d1" "list_all is_digit d2"
    and n: "n = d1 \<or> n = d1 @ ''.'' @ d2" unfolding decimal_number_def by blast
  from assms(2) obtain e1 e2 where e: "e1 \<noteq> []" "list_all is_digit e1" "list_all is_digit e2"
    and n': "n' = e1 \<or> n' = e1 @ ''.'' @ e2" unfolding decimal_number_def by blast
  from assms(3) have r: "r \<noteq> []" "\<not> is_digit (hd r)" "hd r \<noteq> CHR ''.''"
    by (simp_all add: after_number_def)
  from assms(4) have r': "r' \<noteq> []" "\<not> is_digit (hd r')" "hd r' \<noteq> CHR ''.''"
    by (simp_all add: after_number_def)
  define q where "q = (if n = d1 then r else ''.'' @ d2 @ r)"
  define q' where "q' = (if n' = e1 then r' else ''.'' @ e2 @ r')"
  have nq: "n @ r = d1 @ q" using n by (auto simp: q_def)
  have nq': "n' @ r' = e1 @ q'" using n' by (auto simp: q'_def)
  have hq: "q = [] \<or> \<not> is_digit (hd q)" using r not_digit_dot by (simp add: q_def)
  have hq': "q' = [] \<or> \<not> is_digit (hd q')" using r' not_digit_dot by (simp add: q'_def)
  from digits_unique[OF d(2) e(2) hq hq'] assms(5) nq nq' have 1: "d1 = e1" "q = q'" by simp_all
  show ?thesis
  proof (cases "n = d1")
    case True
    then have qr: "q = r" by (simp add: q_def)
    show ?thesis
    proof (cases "n' = e1")
      case True
      with \<open>n = d1\<close> 1 show ?thesis by (simp add: q_def q'_def)
    next
      case False
      then have "q' = ''.'' @ e2 @ r'" by (simp add: q'_def)
      with 1 qr have "r = ''.'' @ e2 @ r'" by simp
      then have "hd r = CHR ''.''" by simp
      with r show ?thesis by simp
    qed
  next
    case False
    with n have nn: "n = d1 @ ''.'' @ d2" and q: "q = ''.'' @ d2 @ r" by (simp_all add: q_def)
    show ?thesis
    proof (cases "n' = e1")
      case True
      then have "q' = r'" by (simp add: q'_def)
      with 1 q have "r' = ''.'' @ d2 @ r" by simp
      then have "hd r' = CHR ''.''" by simp
      with r' show ?thesis by simp
    next
      case False
      with n' have nn': "n' = e1 @ ''.'' @ e2" and q': "q' = ''.'' @ e2 @ r'" by (simp_all add: q'_def)
      from 1 q q' have "d2 @ r = e2 @ r'" by simp
      from digits_unique[OF d(3) e(3) _ _ this] r r' have "d2 = e2 \<and> r = r'" by simp
      with nn nn' 1 show ?thesis by simp
    qed
  qed
qed

lemma phrase_value_unique:
  assumes "duration_phrase num u w" "duration_phrase num' u' w'" "w @ s = w' @ s'"
  shows "num = num' \<and> map_of UNIT_HOURS (py_lower u) = map_of UNIT_HOURS (py_lower u')"
proof -
  from assms(1) obtain sp x where 1: "decimal_number num" "py_lower u \<in> fst ` set UNIT_HOURS"
    "list_all is_space sp" "optional_total x" "w = num @ sp @ x @ u"
    unfolding duration_phrase_def by blast
  from assms(2) obtain sp' x' where 2: "decimal_number num'" "py_lower u' \<in> fst ` set UNIT_HOURS"
    "list_all is_space sp'" "optional_total x'" "w' = num' @ sp' @ x' @ u'"
    unfolding duration_phrase_def by blast
  have e: "num @ (sp @ x @ u @ s) = num' @ (sp' @ x' @ u' @ s')"
    using assms(3) 1(5) 2(5) by simp
  have a: "after_number (sp @ x @ u @ s)" "after_number (sp' @ x' @ u' @ s')"
    using blanks_after[OF 1(3) optional_unit_after(1)[OF 1(4) 1(2)]]
      blanks_after[OF 2(3) optional_unit_after(1)[OF 2(4) 2(2)]] by simp_all
  from number_unique[OF 1(1) 2(1) a e] have n: "num = num'"
    and e2: "sp @ (x @ u @ s) = sp' @ (x' @ u' @ s')" by simp_all
  from blanks_unique[OF 1(3) 2(3) optional_unit_after(2)[OF 1(4) 1(2)]
      optional_unit_after(2)[OF 2(4) 2(2)] e2]
  have e3: "x @ u @ s = x' @ u' @ s'" by simp
  note U = unit_first_letter[OF 1(2)] and U' = unit_first_letter[OF 2(2)]
  have "hd u = hd u'"
  proof (cases "x = []")
    case True
    show ?thesis
    proof (cases "x' = []")
      case True
      with \<open>x = []\<close> e3 U U' show ?thesis by (cases u; cases u'; simp)
    next
      case False
      with 2(4) obtain tot sp1 where "x' = tot @ sp1" "py_lower tot = ''total''"
        unfolding optional_total_def by blast
      with total_first_letter[of tot] e3 \<open>x = []\<close> U have False
        by (cases u; cases tot; simp)
      then show ?thesis ..
    qed
  next
    case False
    with 1(4) obtain tot sp1 where x: "x = tot @ sp1" "py_lower tot = ''total''"
      "list_all is_space sp1"
      unfolding optional_total_def by blast
    show ?thesis
    proof (cases "x' = []")
      case True
      with total_first_letter[of tot] x e3 U' have False
        by (cases u'; cases tot; simp)
      then show ?thesis ..
    next
      case False
      with 2(4) obtain tot' sp1' where x': "x' = tot' @ sp1'" "py_lower tot' = ''total''"
        "list_all is_space sp1'"
        unfolding optional_total_def by blast
      from total_first_letter[OF x(2)] total_first_letter[OF x'(2)]
      have l: "length tot = length tot'" by simp
      from e3 x x' have "tot @ (sp1 @ u @ s) = tot' @ (sp1' @ u' @ s')" by simp
      with l have "sp1 @ (u @ s) = sp1' @ (u' @ s')" by simp
      from blanks_unique[OF x(3) x'(3) unit_after(2)[OF 1(2)] unit_after(2)[OF 2(2)] this]
      have "u @ s = u' @ s'" by simp
      with U U' show ?thesis by (cases u; cases u'; simp)
    qed
  qed
  with U U' n show ?thesis by simp
qed

lemma no_phrase_iff_search_None:
  "search True TIME_REGEX text = None \<longleftrightarrow>
     (\<forall>p w s num u. text = p @ w @ s \<longrightarrow> \<not> duration_phrase num u w)"
  unfolding search_None_iff accepts_time_regex by blast

lemma extract_time_commitment_found:
  assumes "search True TIME_REGEX text = Some m"
  shows "\<exists>p w s num u v k. text = p @ w @ s \<and> duration_phrase num u w
           \<and> (\<forall>p' w' s' num' u'. text = p' @ w' @ s' \<and> duration_phrase num' u' w'
                  \<longrightarrow> length p \<le> length p')
           \<and> py_float num = Inr v \<and> map_of UNIT_HOURS (py_lower u) = Some k
           \<and> extract_time_commitment text = Inr (v * k)"
proof -
  from search_from_Some[OF assms[unfolded search_def]] obtain p z y ys where
    t: "text = p @ z" and y: "matches True TIME_REGEX ((rev p @ [], z), []) = y # ys"
    and m: "m = \<lparr>group0 = between (rev p @ [], z) (fst y), groups = snd y\<rparr>"
    and first: "\<forall>p' s'. text = p' @ s' \<and> length p' < length p \<longrightarrow>
                  matches True TIME_REGEX ((rev p' @ [], s'), []) = []"
    by blast
  have "y \<in> set (matches True TIME_REGEX ((rev p @ [], z), []))" unfolding y by simp
  from time_regex_groups[OF this] obtain num u w s where
    z: "z = w @ s" and g: "snd y = [(2, u), (1, num)]" and ph: "duration_phrase num u w" by blast
  have gm: "groups m = [(2, u), (1, num)]" using m g by simp
  from time_groups_value[OF ph gm] obtain v k where
    v: "py_float num = Inr v" and k: "map_of UNIT_HOURS (py_lower u) = Some k"
    and r: "extract_time_commitment text = Inr (v * k)"
    unfolding extract_time_commitment_def assms by auto
  have least: "\<forall>p' w' s' num' u'. text = p' @ w' @ s' \<and> duration_phrase num' u' w'
                  \<longrightarrow> length p \<le> length p'"
  proof (intro allI impI, rule ccontr)
    fix p' w' s' num' u'
    assume a: "text = p' @ w' @ s' \<and> duration_phrase num' u' w'" and "\<not> length p \<le> length p'"
    then have "matches True TIME_REGEX ((rev p' @ [], w' @ s'), []) = []"
      using first by simp
    then have "\<not> accepts True TIME_REGEX (rev p' @ []) w' s'"
      unfolding matches_empty_iff by blast
    with a show False unfolding accepts_time_regex by blast
  qed
  show ?thesis
    using t z ph least v k r by (intro exI[of _ p] exI[of _ w] exI[of _ s] exI[of _ num] exI[of _ u]
        exI[of _ v] exI[of _ k]) simp
qed

text \<open>
  C6. A text in which no duration phrase occurs yields 0. Otherwise the result comes from
  the first position at which a duration phrase starts and from nothing after it: for any
  phrase starting there, it is the value of the phrase's number times the hours of its
  unit (1 for hours, hrs and h, 10 for weeks and week, 40 for months and month, in any
  case of letters). So \<open>3 weeks\<close> yields 30, \<open>2 months\<close> 80 and \<open>10 hours\<close> 10.
\<close>

theorem extract_time_commitment_first_phrase:
  "((\<forall>p w s num u. text = p @ w @ s \<longrightarrow> \<not> duration_phrase num u w)
      \<longrightarrow> extract_time_commitment text = Inr 0)
   \<and> (text = p @ w @ s \<and> duration_phrase num u w
       \<and> (\<forall>p' w' s' num' u'. text = p' @ w' @ s' \<and> duration_phrase num' u' w'
              \<longrightarrow> length p \<le> length p')
      \<longrightarrow> (\<exists>v k. py_float num = Inr v \<and> map_of UNIT_HOURS (py_lower u) = Some k
                 \<and> extract_time_commitment text = Inr (v * k)))
   \<and> extract_time_commitment ''3 weeks'' = Inr 30
   \<and> extract_time_commitment ''2 months'' = Inr 80
   \<and> extract_time_commitment ''10 hours'' = Inr 10"
proof (intro conjI impI)
  assume "\<forall>p w s num u. text = p @ w @ s \<longrightarrow> \<not> duration_phrase num u w"
  then have "search True TIME_REGEX text = None"
    unfolding no_phrase_iff_search_None .
  then show "extract_time_commitment text = Inr 0"
    by (simp add: extract_time_commitment_def)
next
  assume a: "text = p @ w @ s \<and> duration_phrase num u w
       \<and> (\<forall>p' w' s' num' u'. text = p' @ w' @ s' \<and> duration_phrase num' u' w'
              \<longrightarrow> length p \<le> length p')"
  then have "search True TIME_REGEX text \<noteq> None"
    unfolding no_phrase_iff_search_None by blast
  then obtain m where "search True TIME_REGEX text = Some m" by blast
  from extract_time_commitment_found[OF this] obtain p0 w0 s0 num0 u0 v k where
    0: "text = p0 @ w0 @ s0" "duration_phrase num0 u0 w0"
    "\<forall>p' w' s' num' u'. text = p' @ w' @ s' \<and> duration_phrase num' u' w' \<longrightarrow> length p0 \<le> length p'"
    "py_float num0 = Inr v" "map_of UNIT_HOURS (py_lower u0) = Some k"
    "extract_time_commitment text = Inr (v * k)" by blast
  from a 0(1,2) have "length p \<le> length p0" by blast
  moreover from a 0(3) have "length p0 \<le> length p" by blast
  ultimately have "length p = length p0" by simp
  moreover from a 0(1) have "p @ (w @ s) = p0 @ (w0 @ s0)" by simp
  ultimately have "p = p0" "w @ s = w0 @ s0" by simp_all
  moreover from a have "duration_phrase num u w" by blast
  ultimately have "num = num0"
    "map_of UNIT_HOURS (py_lower u) = map_of UNIT_HOURS (py_lower u0)"
    using phrase_value_unique[of num u w num0 u0 w0 s s0] 0(2) by simp_all
  with 0(4,5,6) show "\<exists>v k. py_float num = Inr v \<and> map_of UNIT_HOURS (py_lower u) = Some k
                 \<and> extract_time_commitment text = Inr (v * k)" by simp
next
  show "extract_time_commitment ''3 weeks'' = Inr 30" by code_simp
  show "extract_time_commitment ''2 months'' = Inr 80" by code_simp
  show "extract_time_commitment ''10 hours'' = Inr 10" by code_simp
qed

lemma phrase_starts_with_digit:
  assumes "duration_phrase num u w"
  shows "w \<noteq> [] \<and> is_digit (hd w)"
proof -
  from assms obtain d1 d2 r where "d1 \<noteq> []" "list_all is_digit d1" "w = d1 @ r"
    unfolding duration_phrase_def decimal_number_def by auto
  then show ?thesis by (cases d1) auto
qed

lemma no_phrase_before:
  assumes "list_all (\<lambda>c. \<not> is_digit c) p" "p @ r = p' @ w' @ s'" "duration_phrase num' u' w'"
  shows "length p \<le> length p'"
proof (rule ccontr)
  assume "\<not> length p \<le> length p'"
  then have l: "length p' < length p" by simp
  from phrase_starts_with_digit[OF assms(3)] obtain c cs where w: "w' = c # cs" "is_digit c"
    by (cases w') auto
  have "(p @ r) ! length p' = p ! length p'" using l by (simp add: nth_append)
  moreover have "(p' @ w' @ s') ! length p' = c" using w by simp
  ultimately have "p ! length p' = c" using assms(2) by simp
  with l have "c \<in> set p" by (metis nth_mem)
  with assms(1) w(2) show False by (simp add: list_all_iff)
qed

text \<open>
  Two phrases in one text: the first, after a word without digits, decides. A text
  without digits has no phrase.
\<close>

theorem extract_time_commitment_first_phrase_witness:
  "''about 1.5 Weeks, then 2 months'' = ''about '' @ ''1.5 Weeks'' @ '', then 2 months''
   \<and> duration_phrase ''1.5'' ''Weeks'' ''1.5 Weeks''
   \<and> py_float ''1.5'' = Inr (3/2) \<and> map_of UNIT_HOURS (py_lower ''Weeks'') = Some 10
   \<and> extract_time_commitment ''about 1.5 Weeks, then 2 months'' = Inr 15
   \<and> extract_time_commitment ''Certificate of Completion'' = Inr 0"
proof -
  have t: "''about 1.5 Weeks, then 2 months'' = ''about '' @ ''1.5 Weeks'' @ '', then 2 months''"
    by simp
  have d: "decimal_number ''1.5''"
    unfolding decimal_number_def
    by (intro exI[of _ "''1''"] exI[of _ "''5''"]) (simp add: is_digit_def code_def)
  have lw: "py_lower ''Weeks'' = ''weeks''" by code_simp
  have ph: "duration_phrase ''1.5'' ''Weeks'' ''1.5 Weeks''"
    unfolding duration_phrase_def lw
    using d by (intro conjI exI[of _ "'' ''"] exI[of _ "[]"])
      (simp_all add: UNIT_HOURS_def optional_total_def is_space_def code_def)
  have nd: "list_all (\<lambda>c. \<not> is_digit c) ''about ''"
    by (simp add: is_digit_def code_def)
  have least: "\<forall>p' w' s' num' u'. ''about 1.5 Weeks, then 2 months'' = p' @ w' @ s'
          \<and> duration_phrase num' u' w' \<longrightarrow> length ''about '' \<le> length p'"
  proof (intro allI impI, elim conjE)
    fix p' w' s' num' u'
    assume "''about 1.5 Weeks, then 2 months'' = p' @ w' @ s'" "duration_phrase num' u' w'"
    then show "length ''about '' \<le> length p'"
      using no_phrase_before[OF nd, of "''1.5 Weeks, then 2 months''" p' w' s' num' u'] by simp
  qed
  have v: "py_float ''1.5'' = Inr (3/2)" by code_simp
  have k: "map_of UNIT_HOURS (py_lower ''Weeks'') = Some 10" unfolding lw by code_simp
  have "search True TIME_REGEX ''Certificate of Completion'' = None" by code_simp
  then have none: "\<forall>p w s num u. ''Certificate of Completion'' = p @ w @ s \<longrightarrow> \<not> duration_phrase num u w"
    unfolding no_phrase_iff_search_None .
  have "\<exists>v k. py_float ''1.5'' = Inr v \<and> map_of UNIT_HOURS (py_lower ''Weeks'') = Some k
          \<and> extract_time_commitment ''about 1.5 Weeks, then 2 months'' = Inr (v * k)"
    using extract_time_commitment_first_phrase[of "''about 1.5 Weeks, then 2 months''"
      "''about ''" "''1.5 Weeks''" "'', then 2 months''" "''1.5''" "''Weeks''"] t ph least
    by blast
  then have r: "extract_time_commitment ''about 1.5 Weeks, then 2 months'' = Inr 15"
    unfolding v k by auto
  have r0: "extract_time_commitment ''Certificate of Completion'' = Inr 0"
    using extract_time_commitment_first_phrase[of "''Certificate of Completion''"] none
    by blast
  show ?thesis
    by (intro conjI t ph v k r r0)
qed

section \<open>Properties of the link finder and the verification classifier\<close>

lemma code_upper_char:
  "code (upper_char c) =
     (if (97 \<le> code c \<and> code c \<le> 122) \<or> (224 \<le> code c \<and> code c \<le> 254 \<and> code c \<noteq> 247)
      then code c - 32 else code c)"
proof -
  have "code c < 256" unfolding code_def by (metis of_char_mod_256 mod_less_divisor zero_less_numeral)
  then show ?thesis
    by (auto simp: upper_char_def Let_def code_def)
qed

text \<open>The class \<open>[A-Z0-9]\<close> under \<open>re.IGNORECASE\<close>: the ASCII letters of either case and digits.\<close>

lemma atom_alnum:
  "atom_matches True (Class False [Range CHR ''A'' CHR ''Z'', Range CHR ''0'' CHR ''9'']) c \<longleftrightarrow>
     (48 \<le> code c \<and> code c \<le> 57) \<or> (65 \<le> code c \<and> code c \<le> 90) \<or> (97 \<le> code c \<and> code c \<le> 122)"
proof -
  have c: "code CHR ''A'' = 65" "code CHR ''Z'' = 90" "code CHR ''0'' = 48" "code CHR ''9'' = 57"
    by (simp_all add: code_def)
  show ?thesis
    by (auto simp: in_range_def c code_lower_char code_upper_char split: if_splits)
qed

lemma atom_alnum_case_sensitive:
  "atom_matches False (Class False [Range CHR ''A'' CHR ''Z'', Range CHR ''0'' CHR ''9'']) c \<longleftrightarrow>
     (48 \<le> code c \<and> code c \<le> 57) \<or> (65 \<le> code c \<and> code c \<le> 90)"
proof -
  have c: "code CHR ''A'' = 65" "code CHR ''Z'' = 90" "code CHR ''0'' = 48" "code CHR ''9'' = 57"
    by (simp_all add: code_def)
  show ?thesis
    by (auto simp: in_range_def c)
qed

lemma atom_nonspace: "atom_matches ic (Class True [Spaces]) c \<longleftrightarrow> \<not> is_space c"
  by simp

lemma alnum_not_space:
  "atom_matches True (Class False [Range CHR ''A'' CHR ''Z'', Range CHR ''0'' CHR ''9'']) c \<Longrightarrow>
   \<not> is_space c"
  unfolding atom_alnum by (auto simp: is_space_def Let_def)

lemma strip_id:
  assumes "w \<noteq> []" "\<not> is_space (hd w)" "\<not> is_space (last w)"
  shows "strip w = w"
proof -
  have dw: "xs \<noteq> [] \<Longrightarrow> \<not> is_space (hd xs) \<Longrightarrow> dropWhile is_space xs = xs" for xs
    by (cases xs) simp_all
  have 1: "dropWhile is_space w = w" using assms(1,2) by (rule dw)
  have "rev w \<noteq> []" "\<not> is_space (hd (rev w))" using assms(1,3) by (simp_all add: hd_rev)
  then have 2: "dropWhile is_space (rev w) = rev w" by (rule dw)
  show ?thesis unfolding strip_def 1 2 by simp
qed

lemma GENERIC_VERIFY_REGEX_parts: "GENERIC_VERIFY_REGEX = RGroup 1 (RAlt verify_url verify_code)"
  by (simp add: GENERIC_VERIFY_REGEX_def verify_url_def verify_code_def)

lemma accepts_verify_code:
  assumes "accepts True verify_code b w t"
  shows "list_all (atom_matches True (Class False [Range CHR ''A'' CHR ''Z'', Range CHR ''0'' CHR ''9''])) w
     \<and> 5 \<le> length w \<and> length w \<le> 12
     \<and> word_boundary (b, w @ t) \<and> word_boundary (rev w @ b, t)"
proof -
  from assms obtain w1 w2 where 1: "w = w1 @ w2" "accepts True RWordB b w1 (w2 @ t)"
    and r1: "accepts True (RSeq (RRep (Class False [Range CHR ''A'' CHR ''Z'', Range CHR ''0'' CHR ''9'']) 5 (Some 12))
               (RSeq RWordB REps)) (rev w1 @ b) w2 t"
    unfolding verify_code_def seq_Cons seq_Nil accepts_seq_iff by blast
  from r1 obtain w3 w4 where 2: "w2 = w3 @ w4"
    "accepts True (RRep (Class False [Range CHR ''A'' CHR ''Z'', Range CHR ''0'' CHR ''9'']) 5 (Some 12))
       (rev w1 @ b) w3 (w4 @ t)"
    and r2: "accepts True (RSeq RWordB REps) (rev w3 @ rev w1 @ b) w4 t"
    unfolding accepts_seq_iff by blast
  from r2 obtain w5 w6 where 3: "w4 = w5 @ w6" "accepts True RWordB (rev w3 @ rev w1 @ b) w5 (w6 @ t)"
    "accepts True REps (rev w5 @ rev w3 @ rev w1 @ b) w6 t"
    unfolding accepts_seq_iff by blast
  from 1(2) have a: "w1 = []" "word_boundary (b, w2 @ t)" by simp_all
  from 3(2,3) have c: "w5 = []" "w6 = []" "word_boundary (rev w3 @ rev w1 @ b, w6 @ t)" by simp_all
  from 2(2) have d: "list_all (atom_matches True (Class False [Range CHR ''A'' CHR ''Z'', Range CHR ''0'' CHR ''9''])) w3"
    "5 \<le> length w3" "length w3 \<le> 12" by simp_all
  have "w = w3" using 1(1) 2(1) 3(1) a(1) c(1,2) by simp
  with a c d 2(1) 3(1) show ?thesis by simp
qed

lemma accepts_verify_url:
  assumes "accepts True verify_url b w t"
  shows "\<exists>h m r. w = h @ m @ r \<and> py_lower h = ''http'' \<and> r \<noteq> [] \<and> list_all (\<lambda>x. \<not> is_space x) r"
proof -
  have l: "py_lower ''http'' = ''http''" by code_simp
  from assms obtain h w2 where 1: "w = h @ w2" "accepts True (literal ''http'') b h (w2 @ t)"
    and r1: "accepts True (RSeq (ROpt (RAtom (Lit CHR ''s''))) (RSeq (literal ''://'')
               (RSeq (RRep (Class True [Spaces]) 1 None) REps))) (rev h @ b) w2 t"
    unfolding verify_url_def seq_Cons seq_Nil accepts_seq_iff by blast
  from r1 obtain s w4 where 2: "w2 = s @ w4"
    and r2: "accepts True (RSeq (literal ''://'') (RSeq (RRep (Class True [Spaces]) 1 None) REps))
               (rev s @ rev h @ b) w4 t"
    unfolding accepts_seq_iff by blast
  from r2 obtain c w6 where 3: "w4 = c @ w6"
    and r3: "accepts True (RSeq (RRep (Class True [Spaces]) 1 None) REps)
               (rev c @ rev s @ rev h @ b) w6 t"
    unfolding accepts_seq_iff by blast
  from r3 obtain r w8 where 4: "w6 = r @ w8"
    "accepts True (RRep (Class True [Spaces]) 1 None) (rev c @ rev s @ rev h @ b) r (w8 @ t)"
    "accepts True REps (rev r @ rev c @ rev s @ rev h @ b) w8 t"
    unfolding accepts_seq_iff by blast
  from 4(2) have r: "r \<noteq> []" "list_all (\<lambda>x. \<not> is_space x) r"
    unfolding accepts_rep_plus atom_nonspace[abs_def] by simp_all
  from 4(3) have "w8 = []" by simp
  with 1(1) 2 3 4(1) have "w = h @ (s @ c) @ r" by simp
  moreover from 1(2) have "py_lower h = ''http''" unfolding accepts_literal l by simp
  ultimately show ?thesis using r by blast
qed

lemma accepts_verify_nonblank:
  assumes "accepts True GENERIC_VERIFY_REGEX b w t"
  shows "w \<noteq> [] \<and> \<not> is_space (hd w) \<and> \<not> is_space (last w)"
proof -
  from assms consider "accepts True verify_url b w t" | "accepts True verify_code b w t"
    unfolding GENERIC_VERIFY_REGEX_parts by auto
  then show ?thesis
  proof cases
    case 1
    from accepts_verify_url[OF 1] obtain h m r where
      w: "w = h @ m @ r" and h: "py_lower h = ''http''" and r: "r \<noteq> []" "list_all (\<lambda>x. \<not> is_space x) r"
      by blast
    from h have hn: "h \<noteq> []" by (auto simp: py_lower_def)
    have "hd (py_lower h) = CHR ''h''" unfolding h by simp
    then have "lower_char (hd h) = CHR ''h''" using hd_py_lower[OF hn] by simp
    then have "97 \<le> code (lower_char (hd h))" "code (lower_char (hd h)) \<le> 122"
      by (simp_all add: code_def)
    from lower_letter[OF this] have "\<not> is_space (hd h)" by simp
    moreover have "hd w = hd h" "last w = last r" using w hn r(1) by simp_all
    moreover have "\<not> is_space (last r)" using r by (simp add: list_all_iff)
    ultimately show ?thesis using w hn by simp
  next
    case 2
    from accepts_verify_code[OF 2] have
      a: "list_all (atom_matches True (Class False [Range CHR ''A'' CHR ''Z'', Range CHR ''0'' CHR ''9''])) w"
      and l: "5 \<le> length w" by simp_all
    from l have n: "w \<noteq> []" by auto
    then have "hd w \<in> set w" "last w \<in> set w" by simp_all
    with a have "\<not> is_space (hd w)" "\<not> is_space (last w)"
      using alnum_not_space unfolding list_all_iff by blast+
    with n show ?thesis by simp
  qed
qed

lemma search_Some_group0:
  assumes "search ic r text = Some m"
  shows "\<exists>p w s. text = p @ w @ s \<and> group0 m = w \<and> accepts ic r (rev p) w s"
proof -
  from search_from_Some[OF assms[unfolded search_def]] obtain p z y ys where
    t: "text = p @ z" and y: "matches ic r ((rev p @ [], z), []) = y # ys"
    and m: "m = \<lparr>group0 = between (rev p @ [], z) (fst y), groups = snd y\<rparr>"
    by blast
  have "y \<in> set (matches ic r ((rev p @ [], z), []))" unfolding y by simp
  from matches_sound[OF this] obtain w a where
    1: "z = w @ a" "fst y = (rev w @ rev p @ [], a)" "accepts ic r (rev p @ []) w a" by blast
  have "group0 m = w" unfolding m using 1(1,2) by (simp add: between_append)
  with t 1 show ?thesis by auto
qed

lemma find_verification_link_nonempty:
  assumes "find_verification_link text = Some l"
  shows "l \<noteq> []"
proof -
  from assms obtain m where m: "search True GENERIC_VERIFY_REGEX text = Some m"
    and l: "l = strip (group0 m)"
    by (auto simp: find_verification_link_def split: option.splits)
  from search_Some_group0[OF m] obtain p w s where "group0 m = w"
    "accepts True GENERIC_VERIFY_REGEX (rev p) w s" by blast
  with accepts_verify_nonblank[of "rev p" w s] strip_id[of w] l show ?thesis by simp
qed

lemma truthy_find_verification_link:
  "truthy (find_verification_link text) \<longleftrightarrow> find_verification_link text \<noteq> None"
  using find_verification_link_nonempty[of "text"]
  by (cases "find_verification_link text") (simp_all add: truthy_def)

lemma substring_in_sublist: "substring_in needle hay = sublist needle hay"
  by (simp add: substring_in_iff sublist_def)

lemma extract_time_commitment_total: "\<exists>v. extract_time_commitment t = Inr v"
proof (cases "search True TIME_REGEX t")
  case None
  then show ?thesis by (simp add: extract_time_commitment_def)
next
  case (Some m)
  from extract_time_commitment_found[OF Some] show ?thesis by blast
qed

lemma analyze_text_verified:
  "\<exists>out. analyze_text ex SKILL_TAGS t issuer_db = Inr out
     \<and> verified (out_features out) = Some (truthy (find_verification_link t))
     \<and> verification_reason (out_features out)
         = guess_verification_method t (find_verification_link t)"
proof -
  from extract_time_commitment_total[of t] obtain v where
    v: "extract_time_commitment t = Inr v" by blast
  show ?thesis
    unfolding analyze_text_def Let_def v sum.case by simp
qed

text \<open>
  C5. The classifier decides by first match: \<open>proct\<close> or \<open>invigil\<close> in the lowercased
  text gives \<open>proctored\<close> whatever the link; otherwise \<open>blockchain\<close> in the text gives
  \<open>blockchain\<close>; otherwise a link that was found gives \<open>registry\<close> when its lowercased
  form contains \<open>verify\<close>, \<open>certificate\<close>, \<open>registry\<close> or \<open>credentials\<close>, and
  \<open>simple_link\<close> when it does not; otherwise the result is \<open>none\<close>. The analysis of a
  text always yields a record, whose \<open>verified\<close> flag is true exactly when the link finder
  found a link, and whose reason is the classifier's answer for that link.
\<close>

theorem verification_classifier:
  "guess_verification_method text link =
     (if sublist ''proct'' (py_lower text) \<or> sublist ''invigil'' (py_lower text) then proctored
      else if sublist ''blockchain'' (py_lower text) then blockchain
      else case link of
             None \<Rightarrow> none
           | Some l \<Rightarrow>
               if l = [] then none
               else if sublist ''verify'' (py_lower l) \<or> sublist ''certificate'' (py_lower l)
                       \<or> sublist ''registry'' (py_lower l) \<or> sublist ''credentials'' (py_lower l)
                    then registry else simple_link)
   \<and> (\<exists>out. analyze_text ex SKILL_TAGS text issuer_db = Inr out
         \<and> verified (out_features out) = Some (find_verification_link text \<noteq> None)
         \<and> verification_reason (out_features out)
             = guess_verification_method text (find_verification_link text))"
proof
  show "guess_verification_method text link =
     (if sublist ''proct'' (py_lower text) \<or> sublist ''invigil'' (py_lower text) then proctored
      else if sublist ''blockchain'' (py_lower text) then blockchain
      else case link of
             None \<Rightarrow> none
           | Some l \<Rightarrow>
               if l = [] then none
               else if sublist ''verify'' (py_lower l) \<or> sublist ''certificate'' (py_lower l)
                       \<or> sublist ''registry'' (py_lower l) \<or> sublist ''credentials'' (py_lower l)
                    then registry else simple_link)"
    unfolding guess_verification_method_def Let_def substring_in_sublist truthy_def dict_get_def
    by (cases link) simp_all
  show "\<exists>out. analyze_text ex SKILL_TAGS text issuer_db = Inr out
         \<and> verified (out_features out) = Some (find_verification_link text \<noteq> None)
         \<and> verification_reason (out_features out)
             = guess_verification_method text (find_verification_link text)"
    using analyze_text_verified[of ex SKILL_TAGS "text" issuer_db]
    unfolding truthy_find_verification_link .
qed

text \<open>
  One text for each outcome; the first is classified \<open>proctored\<close>, has no link and is
  not verified.
\<close>

theorem verification_classifier_witness:
  "find_verification_link ''proctored_exam_required'' = None
   \<and> guess_verification_method ''proctored_exam_required'' None = proctored
   \<and> guess_verification_method ''Proctored Exam Required'' (Some ''https://x.org/verify/1'') = proctored
   \<and> guess_verification_method ''On the blockchain'' (Some ''https://x.org/verify/1'') = blockchain
   \<and> guess_verification_method ''see https://x.org/verify/1'' (Some ''https://x.org/verify/1'') = registry
   \<and> guess_verification_method ''see https://x.org/a/1'' (Some ''https://x.org/a/1'') = simple_link
   \<and> guess_verification_method ''a b c'' None = none
   \<and> (\<exists>out. analyze_text (\<lambda>query choices cutoff. None) [] ''proctored_exam_required'' None = Inr out
         \<and> verified (out_features out) = Some False
         \<and> verification_reason (out_features out) = proctored)"
proof -
  have f: "find_verification_link ''proctored_exam_required'' = None" by code_simp
  have g: "guess_verification_method ''proctored_exam_required'' None = proctored"
    "guess_verification_method ''Proctored Exam Required'' (Some ''https://x.org/verify/1'') = proctored"
    "guess_verification_method ''On the blockchain'' (Some ''https://x.org/verify/1'') = blockchain"
    "guess_verification_method ''see https://x.org/verify/1'' (Some ''https://x.org/verify/1'') = registry"
    "guess_verification_method ''see https://x.org/a/1'' (Some ''https://x.org/a/1'') = simple_link"
    "guess_verification_method ''a b c'' None = none"
    by code_simp+
  have "\<exists>out. analyze_text (\<lambda>query choices cutoff. None) [] ''proctored_exam_required'' None = Inr out
         \<and> verified (out_features out) = Some False
         \<and> verification_reason (out_features out) = proctored"
    using verification_classifier[of "''proctored_exam_required''" None
        "\<lambda>query choices cutoff. None" "[]" None]
    unfolding f g by simp
  with f g show ?thesis by blast
qed

text \<open>
  C7. The specification describes codes of 5 to 12 uppercase letters or digits, and the
  class \<open>[A-Z0-9]\<close> of the expression names those. The flag \<open>re.IGNORECASE\<close> makes the class
  accept lowercase letters as well, so that the first ordinary word of 5 to 12 letters
  is returned as the verification link: in a text with neither a URL nor an uppercase
  code, and before a URL that comes later in the text. Without the flag the first text
  has no match.
\<close>

theorem find_verification_link_lowercase_words:
  "find_verification_link ''hello world'' = Some ''hello''
   \<and> find_verification_link ''Certificate of Completion'' = Some ''Certificate''
   \<and> find_verification_link ''Verify at https://coursera.org/verify/ABC123XYZ'' = Some ''Verify''
   \<and> search False GENERIC_VERIFY_REGEX ''hello world'' = None"
  by code_simp

end
